theory Spec2Isabelle
  imports Main "HOL-Library.AList"
begin

section \<open>The file system the program runs on\<close>

text \<open>
  PhotoZipper is a Python program whose functions act on the file system through
  \<^verbatim>\<open>pathlib\<close>, \<^verbatim>\<open>shutil\<close> and \<^verbatim>\<open>zipfile\<close>. The embedding passes the file system
  explicitly: every function that touches it takes the state and returns the new one,
  and every exception the Python raises is a value \<open>Inl e\<close> of a sum type.

  A path is the list of its components below a fixed root (the root is the empty list and
  always a directory). A state is an association list from paths to nodes; the order of the
  list is the order in which \<^verbatim>\<open>iterdir\<close> yields the entries of a directory, which the
  Python leaves to the file system. A file carries its data and whether it may be read;
  time stamps are not part of the model. The data of a file is a string of characters or,
  for the archives written by \<^verbatim>\<open>zipfile\<close>, the list of archive members (name and data).
\<close>

type_synonym path = "string list"

datatype fdata = Raw string | Archive "(string \<times> fdata) list"

datatype node = File (fcontent: fdata) (readable: bool) | Dir

type_synonym fs = "(path \<times> node) list"

datatype error =
    FileNotFoundError
  | FileExistsError
  | NotADirectoryError
  | IsADirectoryError
  | PermissionError
  | SameFileError
  | OSError
  | KeyError
  | ReError string

text \<open>The size \<^verbatim>\<open>stat().st_size\<close> reports: the length of the data; for an archive the
  sizes of the names and data of its members (compression is not modelled); for a directory
  the block size that common file systems report.\<close>

fun fsize :: "fdata \<Rightarrow> nat" where
  "fsize (Raw s) = length s"
| "fsize (Archive es) = sum_list (map (\<lambda>e. length (fst e) + fsize (snd e)) es)"

definition dir_size :: nat where
  "dir_size = 4096"

definition lookup :: "fs \<Rightarrow> path \<Rightarrow> node option" where
  "lookup fs p = (if p = [] then Some Dir else map_of fs p)"

text \<open>\<^verbatim>\<open>Path.exists()\<close>, \<^verbatim>\<open>Path.is_file()\<close>, \<^verbatim>\<open>Path.is_dir()\<close>.\<close>

definition exists :: "fs \<Rightarrow> path \<Rightarrow> bool" where
  "exists fs p = (lookup fs p \<noteq> None)"

definition is_file :: "fs \<Rightarrow> path \<Rightarrow> bool" where
  "is_file fs p = (case lookup fs p of Some (File d r) \<Rightarrow> True | _ \<Rightarrow> False)"

definition is_dir :: "fs \<Rightarrow> path \<Rightarrow> bool" where
  "is_dir fs p = (lookup fs p = Some Dir)"

text \<open>\<^verbatim>\<open>Path.stat().st_size\<close>: raises \<^verbatim>\<open>FileNotFoundError\<close> when the path does not exist.\<close>

definition stat_size :: "fs \<Rightarrow> path \<Rightarrow> error + nat" where
  "stat_size fs p =
     (case lookup fs p of
        None \<Rightarrow> Inl FileNotFoundError
      | Some (File d r) \<Rightarrow> Inr (fsize d)
      | Some Dir \<Rightarrow> Inr dir_size)"

text \<open>\<^verbatim>\<open>Path.name\<close> and \<^verbatim>\<open>Path.parent\<close>; the operator \<^verbatim>\<open>/\<close> of \<^verbatim>\<open>pathlib\<close>, which
  drops an empty component and the component \<^verbatim>\<open>.\<close> (a file name never holds a
  separator, so the right operand is one component).\<close>

definition pname :: "path \<Rightarrow> string" where
  "pname p = (if p = [] then [] else last p)"

definition parent :: "path \<Rightarrow> path" where
  "parent p = butlast p"

definition pjoin :: "path \<Rightarrow> string \<Rightarrow> path" where
  "pjoin p n = (if n = [] \<or> n = ''.'' then p else p @ [n])"

text \<open>Writing a node: an existing entry keeps its place in the listing, a new one goes to
  the end.\<close>

definition put :: "fs \<Rightarrow> path \<Rightarrow> node \<Rightarrow> fs" where
  "put fs p n = AList.update p n fs"

text \<open>\<^verbatim>\<open>Path.iterdir()\<close>: the direct entries of a directory, in the order of the state.\<close>

definition children :: "fs \<Rightarrow> path \<Rightarrow> path list" where
  "children fs d = map fst (filter (\<lambda>e. fst e \<noteq> [] \<and> butlast (fst e) = d) fs)"

definition iterdir :: "fs \<Rightarrow> path \<Rightarrow> error + path list" where
  "iterdir fs d =
     (case lookup fs d of
        None \<Rightarrow> Inl FileNotFoundError
      | Some (File c r) \<Rightarrow> Inl NotADirectoryError
      | Some Dir \<Rightarrow> Inr (children fs d))"

text \<open>The data of a regular file.\<close>

definition file_data :: "fs \<Rightarrow> path \<Rightarrow> fdata" where
  "file_data fs p = (case lookup fs p of Some (File d r) \<Rightarrow> d | _ \<Rightarrow> Raw [])"

section \<open>Regular expressions (the library module re)\<close>

text \<open>
  \<^verbatim>\<open>re.search(pattern, string)\<close> compiles the pattern and runs the compiled pattern over the
  string. The parser of pattern strings is not modelled: the functions below take it as the
  parameter \<open>re_compile\<close>, which returns the compiled pattern or the message of \<^verbatim>\<open>re.error\<close>.
  A compiled pattern is a term of \<open>rexp\<close>: the empty pattern, one character, \<^verbatim>\<open>.\<close> (any
  character but newline), the character sets \<^verbatim>\<open>[...]\<close> and \<^verbatim>\<open>[^...]\<close>, sequence,
  alternation \<^verbatim>\<open>|\<close> and the greedy \<^verbatim>\<open>*\<close>. Matching is case sensitive and character by
  character.
\<close>

datatype rexp =
    Eps
  | Chr char
  | AnyChar
  | OneOf "char list"
  | NoneOf "char list"
  | Seq rexp rexp
  | Alt rexp rexp
  | Star rexp





text \<open>
  The backtracking matcher. \<open>ends r s\<close> lists, in the order in which the matcher tries
  them, what is left of \<open>s\<close> after each way of matching \<open>r\<close> at the start of \<open>s\<close>: the left
  branch of an alternation before the right one, one more round of a starred pattern before
  stopping, and no further round after a round that consumed nothing.
\<close>

fun ends :: "rexp \<Rightarrow> string \<Rightarrow> string list" where
  "ends Eps s = [s]"
| "ends (Chr c) s = (case s of [] \<Rightarrow> [] | x # xs \<Rightarrow> if x = c then [xs] else [])"
| "ends AnyChar s = (case s of [] \<Rightarrow> [] | x # xs \<Rightarrow> if x \<noteq> CHR 0x0A then [xs] else [])"
| "ends (OneOf cs) s = (case s of [] \<Rightarrow> [] | x # xs \<Rightarrow> if x \<in> set cs then [xs] else [])"
| "ends (NoneOf cs) s = (case s of [] \<Rightarrow> [] | x # xs \<Rightarrow> if x \<notin> set cs then [xs] else [])"
| "ends (Seq r1 r2) s = concat (map (ends r2) (ends r1 s))"
| "ends (Alt r1 r2) s = ends r1 s @ ends r2 s"
| "ends (Star r) s =
     concat (map (\<lambda>s'. if length s' < length s then ends (Star r) s' else [s']) (ends r s)) @ [s]"


declare ends.simps(8) [simp del]

text \<open>\<^verbatim>\<open>re.search\<close> on a compiled pattern: the first offset, from the left, at which the
  matcher succeeds, and there the first match the matcher finds; the result is the offset
  and the matched text (\<^verbatim>\<open>match.start()\<close> and \<^verbatim>\<open>match.group(0)\<close>).\<close>

fun search_from :: "rexp \<Rightarrow> nat \<Rightarrow> string \<Rightarrow> (nat \<times> string) option" where
  "search_from r i s =
     (case ends r s of
        e # es \<Rightarrow> Some (i, take (length s - length e) s)
      | [] \<Rightarrow> (case s of [] \<Rightarrow> None | c # cs \<Rightarrow> search_from r (Suc i) cs))"

declare search_from.simps [simp del]

definition re_search :: "rexp \<Rightarrow> string \<Rightarrow> (nat \<times> string) option" where
  "re_search r s = search_from r 0 s"

section \<open>Data model (models.py)\<close>

text \<open>\<^verbatim>\<open>SourceFile\<close> without its time stamp, and \<^verbatim>\<open>FileGroup\<close>.\<close>

record SourceFile =
  sf_path :: path
  sf_name :: string
  sf_size :: nat
  sf_group :: string

record FileGroup =
  fg_name :: string
  fg_files :: "SourceFile list"

definition from_path :: "fs \<Rightarrow> path \<Rightarrow> string \<Rightarrow> error + SourceFile" where
  "from_path fs file_path grp =
     (case stat_size fs file_path of
        Inl e \<Rightarrow> Inl e
      | Inr n \<Rightarrow> Inr \<lparr>sf_path = file_path, sf_name = pname file_path, sf_size = n, sf_group = grp\<rparr>)"

definition add_file :: "FileGroup \<Rightarrow> SourceFile \<Rightarrow> FileGroup" where
  "add_file g f = g\<lparr>fg_files := fg_files g @ [f]\<rparr>"

definition file_count :: "FileGroup \<Rightarrow> nat" where
  "file_count g = length (fg_files g)"

section \<open>Pattern matcher (pattern\_matcher.py)\<close>

text \<open>\<^verbatim>\<open>str.isspace\<close> on the characters below 256, and whether \<^verbatim>\<open>pattern.strip()\<close> is
  empty.\<close>

definition is_space :: "char \<Rightarrow> bool" where
  "is_space c = (of_char c \<in> set ([9, 10, 11, 12, 13, 28, 29, 30, 31, 32, 133, 160] :: nat list))"

definition blank :: "string \<Rightarrow> bool" where
  "blank s = list_all is_space s"

text \<open>\<^verbatim>\<open>validate_pattern\<close>: the result is \<^verbatim>\<open>True\<close> or the message of the \<^verbatim>\<open>ValueError\<close>.\<close>

definition validate_pattern :: "(string \<Rightarrow> string + rexp) \<Rightarrow> string \<Rightarrow> string + bool" where
  "validate_pattern re_compile pattern =
     (if pattern = [] \<or> blank pattern then Inl ''Pattern cannot be empty''
      else (case re_compile pattern of
              Inr r \<Rightarrow> Inr True
            | Inl msg \<Rightarrow> Inl (''Invalid regex pattern: '' @ msg)))"

definition extract_group :: "(string \<Rightarrow> string + rexp) \<Rightarrow> string \<Rightarrow> string \<Rightarrow> error + string option" where
  "extract_group re_compile filename pattern =
     (case re_compile pattern of
        Inl msg \<Rightarrow> Inl (ReError msg)
      | Inr r \<Rightarrow>
          (case re_search r filename of
             Some match \<Rightarrow> Inr (Some (snd match))
           | None \<Rightarrow> Inr None))"

text \<open>The loop of \<^verbatim>\<open>scan_and_group\<close>. The dictionary \<^verbatim>\<open>groups_dict\<close> keeps the order in which
  its keys were inserted, so it is an association list.\<close>

fun scan_items ::
  "(string \<Rightarrow> string + rexp) \<Rightarrow> fs \<Rightarrow> string \<Rightarrow> path list \<Rightarrow> (string \<times> FileGroup) list
     \<Rightarrow> error + (string \<times> FileGroup) list" where
  "scan_items re_compile fs pattern [] groups_dict = Inr groups_dict"
| "scan_items re_compile fs pattern (item # items) groups_dict =
     (if \<not> is_file fs item then scan_items re_compile fs pattern items groups_dict
      else (case extract_group re_compile (pname item) pattern of
              Inl e \<Rightarrow> Inl e
            | Inr None \<Rightarrow> scan_items re_compile fs pattern items groups_dict
            | Inr (Some group_name) \<Rightarrow>
                (let d = (if map_of groups_dict group_name = None
                          then groups_dict @ [(group_name, \<lparr>fg_name = group_name, fg_files = []\<rparr>)]
                          else groups_dict)
                 in case from_path fs item group_name of
                      Inl e \<Rightarrow> Inl e
                    | Inr source_file \<Rightarrow>
                        (case map_of d group_name of
                           None \<Rightarrow> Inl KeyError
                         | Some g \<Rightarrow>
                             scan_items re_compile fs pattern items
                               (AList.update group_name (add_file g source_file) d)))))"

definition scan_and_group ::
  "(string \<Rightarrow> string + rexp) \<Rightarrow> fs \<Rightarrow> path \<Rightarrow> string \<Rightarrow> error + FileGroup list" where
  "scan_and_group re_compile fs source_dir pattern =
     (case iterdir fs source_dir of
        Inl e \<Rightarrow> Inl e
      | Inr items \<Rightarrow>
          (case scan_items re_compile fs pattern items [] of
             Inl e \<Rightarrow> Inl e
           | Inr groups_dict \<Rightarrow> Inr (map snd groups_dict)))"

section \<open>File organizer (file\_organizer.py)\<close>

text \<open>\<^verbatim>\<open>Path.mkdir(parents=True, exist_ok=True)\<close>, as \<^verbatim>\<open>pathlib\<close> implements it:
  \<^verbatim>\<open>os.mkdir\<close> first; when the parent is missing, the parent is made the same way and
  \<^verbatim>\<open>os.mkdir\<close> is tried again; an existing directory is accepted, an existing file is not.\<close>

function mkdir_parents :: "fs \<Rightarrow> path \<Rightarrow> error + fs" where
  "mkdir_parents fs p =
     (case lookup fs p of
        Some Dir \<Rightarrow> Inr fs
      | Some (File d r) \<Rightarrow> Inl FileExistsError
      | None \<Rightarrow>
          (case lookup fs (parent p) of
             Some Dir \<Rightarrow> Inr (put fs p Dir)
           | Some (File d r) \<Rightarrow> Inl NotADirectoryError
           | None \<Rightarrow>
               (case mkdir_parents fs (parent p) of
                  Inl e \<Rightarrow> Inl e
                | Inr fs' \<Rightarrow> Inr (put fs' p Dir))))"
  by pat_completeness auto
termination
  by (relation "measure (\<lambda>(fs, p). length p)")
     (auto simp: lookup_def parent_def split: if_splits)

declare mkdir_parents.simps [simp del]

definition create_folder :: "fs \<Rightarrow> path \<Rightarrow> error + fs" where
  "create_folder fs folder_path = mkdir_parents fs folder_path"

text \<open>
  \<^verbatim>\<open>shutil.copy2(source, target)\<close> copies the data with \<^verbatim>\<open>copyfile\<close> and then the
  permission bits and the time stamps with \<^verbatim>\<open>copystat\<close>. The source must be a readable
  regular file; a target that is a directory stands for the entry of the source's name
  inside it; source and target must differ; the directory of the target must exist. When one
  of these fails nothing has been written. After the target was opened the copy can still
  fail, for reasons that are not in the state of the file system (the device is full, the
  metadata cannot be set on the target): \<open>Interrupted d\<close> says that \<^verbatim>\<open>copy2\<close> raises
  \<^verbatim>\<open>OSError\<close> and leaves a target holding \<open>d\<close>, a part of the data when the writing was
  interrupted, all of it when \<^verbatim>\<open>copystat\<close> failed. Which copy is interrupted is given by
  \<open>io\<close>, for the source and the target of the copy. \<open>copy2\<close> returns the new state and the
  exception it raised, if any.
\<close>

datatype fault = NoFault | Interrupted fdata

type_synonym faults = "path \<Rightarrow> path \<Rightarrow> fault"

definition copy2 :: "faults \<Rightarrow> fs \<Rightarrow> path \<Rightarrow> path \<Rightarrow> fs \<times> error option" where
  "copy2 io fs source target =
     (let dst = (if is_dir fs target then pjoin target (pname source) else target) in
      case lookup fs source of
        None \<Rightarrow> (fs, Some FileNotFoundError)
      | Some Dir \<Rightarrow> (fs, Some IsADirectoryError)
      | Some (File d r) \<Rightarrow>
          if dst = source then (fs, Some SameFileError)
          else if \<not> r then (fs, Some PermissionError)
          else if is_dir fs dst then (fs, Some IsADirectoryError)
          else (case lookup fs (parent dst) of
                  None \<Rightarrow> (fs, Some FileNotFoundError)
                | Some (File d' r') \<Rightarrow> (fs, Some NotADirectoryError)
                | Some Dir \<Rightarrow>
                    (case io source dst of
                       NoFault \<Rightarrow> (put fs dst (File d r), None)
                     | Interrupted d' \<Rightarrow>
                         (put fs dst (File d' (case lookup fs dst of
                                                 Some (File d0 r0) \<Rightarrow> r0
                                               | _ \<Rightarrow> True)),
                          Some OSError))))"

text \<open>\<^verbatim>\<open>copy_file_with_metadata\<close> catches \<^verbatim>\<open>PermissionError\<close> and \<^verbatim>\<open>OSError\<close> (every
  error of \<open>copy2\<close> is one) and returns \<^verbatim>\<open>False\<close>; what the failed copy wrote stays.\<close>

definition copy_file_with_metadata :: "faults \<Rightarrow> fs \<Rightarrow> path \<Rightarrow> path \<Rightarrow> fs \<times> bool" where
  "copy_file_with_metadata io fs source target =
     (case copy2 io fs source target of
        (fs', None) \<Rightarrow> (fs', True)
      | (fs', Some e) \<Rightarrow> (fs', False))"

definition verify_copy :: "fs \<Rightarrow> path \<Rightarrow> path \<Rightarrow> error + bool" where
  "verify_copy fs source target =
     (if \<not> exists fs target then Inr False
      else (case stat_size fs source of
              Inl e \<Rightarrow> Inl e
            | Inr source_size \<Rightarrow>
                (case stat_size fs target of
                   Inl e \<Rightarrow> Inl e
                 | Inr target_size \<Rightarrow> Inr (source_size = target_size))))"

definition handle_merge :: "fs \<Rightarrow> path \<Rightarrow> bool \<times> string" where
  "handle_merge fs target = (if exists fs target then (False, ''skip'') else (True, ''copy''))"

text \<open>\<^verbatim>\<open>Path.unlink()\<close> and \<^verbatim>\<open>delete_original\<close>, which catches \<^verbatim>\<open>PermissionError\<close> and
  \<^verbatim>\<open>FileNotFoundError\<close> only.\<close>

definition unlink :: "fs \<Rightarrow> path \<Rightarrow> error + fs" where
  "unlink fs p =
     (case lookup fs p of
        None \<Rightarrow> Inl FileNotFoundError
      | Some Dir \<Rightarrow> Inl IsADirectoryError
      | Some (File d r) \<Rightarrow> Inr (AList.delete p fs))"

definition delete_original :: "fs \<Rightarrow> path \<Rightarrow> error + fs \<times> bool" where
  "delete_original fs file_path =
     (case unlink fs file_path of
        Inr fs' \<Rightarrow> Inr (fs', True)
      | Inl PermissionError \<Rightarrow> Inr (fs, False)
      | Inl FileNotFoundError \<Rightarrow> Inr (fs, False)
      | Inl e \<Rightarrow> Inl e)"

section \<open>Archive creator (zip\_creator.py)\<close>

text \<open>
  \<^verbatim>\<open>zipfile.ZipFile(zip_path, 'w')\<close> creates or truncates the file; \<^verbatim>\<open>ZipFile.write\<close> reads a
  file and appends a member under the given name; leaving the \<^verbatim>\<open>with\<close> block writes the
  members collected so far to the file, also when the block is left by an exception.
  \<^verbatim>\<open>iterdir\<close> lists the folder once, after the archive file was created.
\<close>

definition zip_open :: "fs \<Rightarrow> path \<Rightarrow> error + fs" where
  "zip_open fs zip_path =
     (case lookup fs zip_path of
        Some Dir \<Rightarrow> Inl IsADirectoryError
      | Some (File d r) \<Rightarrow> Inr (put fs zip_path (File (Archive []) r))
      | None \<Rightarrow>
          (case lookup fs (parent zip_path) of
             None \<Rightarrow> Inl FileNotFoundError
           | Some (File d r) \<Rightarrow> Inl NotADirectoryError
           | Some Dir \<Rightarrow> Inr (put fs zip_path (File (Archive []) True))))"

definition zip_write :: "fs \<Rightarrow> path \<Rightarrow> string \<Rightarrow> (string \<times> fdata) list \<Rightarrow> error + (string \<times> fdata) list" where
  "zip_write fs item arcname members =
     (case lookup fs item of
        None \<Rightarrow> Inl FileNotFoundError
      | Some Dir \<Rightarrow> Inr (members @ [(arcname @ ''/'', Raw [])])
      | Some (File d r) \<Rightarrow> if r then Inr (members @ [(arcname, d)]) else Inl PermissionError)"

definition zip_close :: "fs \<Rightarrow> path \<Rightarrow> (string \<times> fdata) list \<Rightarrow> fs" where
  "zip_close fs zip_path members =
     (case lookup fs zip_path of
        Some (File d r) \<Rightarrow> put fs zip_path (File (Archive members) r)
      | _ \<Rightarrow> fs)"

fun add_items :: "fs \<Rightarrow> path list \<Rightarrow> (string \<times> fdata) list \<Rightarrow> (string \<times> fdata) list \<times> error option" where
  "add_items fs [] members = (members, None)"
| "add_items fs (item # items) members =
     (if is_file fs item
      then (case zip_write fs item (pname item) members of
              Inl e \<Rightarrow> (members, Some e)
            | Inr members' \<Rightarrow> add_items fs items members')
      else add_items fs items members)"

definition add_folder_to_zip ::
  "fs \<Rightarrow> path \<Rightarrow> (string \<times> fdata) list \<Rightarrow> (string \<times> fdata) list \<times> error option" where
  "add_folder_to_zip fs folder_path members =
     (case iterdir fs folder_path of
        Inl e \<Rightarrow> (members, Some e)
      | Inr items \<Rightarrow> add_items fs items members)"

text \<open>\<^verbatim>\<open>create_zip\<close> returns the new state and the exception it raised, if any.\<close>

definition create_zip :: "fs \<Rightarrow> path \<Rightarrow> path \<Rightarrow> fs \<times> error option" where
  "create_zip fs folder_path zip_path =
     (if \<not> exists fs folder_path then (fs, Some FileNotFoundError)
      else (case zip_open fs zip_path of
              Inl e \<Rightarrow> (fs, Some e)
            | Inr fs' \<Rightarrow>
                (case add_folder_to_zip fs' folder_path [] of
                   (members, raised) \<Rightarrow> (zip_close fs' zip_path members, raised))))"

section \<open>Logging (logger.py)\<close>

text \<open>
  \<^verbatim>\<open>setup_logging\<close> makes the output directory and opens \<^verbatim>\<open>photozipper.log\<close> in it for
  appending, which creates the file; when either fails the logger has no file handler and a
  warning is logged. The records a run logs are kept in the run's state, each with its level
  name; the text appended to the log file is not written into the file's node.
\<close>

definition open_append :: "fs \<Rightarrow> path \<Rightarrow> error + fs" where
  "open_append fs p =
     (case lookup fs p of
        Some Dir \<Rightarrow> Inl IsADirectoryError
      | Some (File d r) \<Rightarrow> Inr fs
      | None \<Rightarrow>
          (case lookup fs (parent p) of
             None \<Rightarrow> Inl FileNotFoundError
           | Some (File d r) \<Rightarrow> Inl NotADirectoryError
           | Some Dir \<Rightarrow> Inr (put fs p (File (Raw []) True))))"

text \<open>The text of an exception is represented by the name of its class.\<close>

fun str_error :: "error \<Rightarrow> string" where
  "str_error FileNotFoundError = ''FileNotFoundError''"
| "str_error FileExistsError = ''FileExistsError''"
| "str_error NotADirectoryError = ''NotADirectoryError''"
| "str_error IsADirectoryError = ''IsADirectoryError''"
| "str_error PermissionError = ''PermissionError''"
| "str_error SameFileError = ''SameFileError''"
| "str_error OSError = ''OSError''"
| "str_error KeyError = ''KeyError''"
| "str_error (ReError msg) = msg"

record logger =
  console_level :: string
  file_handler :: "path option"

definition setup_logging :: "fs \<Rightarrow> path \<Rightarrow> string \<Rightarrow> fs \<times> logger \<times> (string \<times> string) list" where
  "setup_logging fs output_dir log_level =
     (case mkdir_parents fs output_dir of
        Inl e \<Rightarrow>
          (fs, \<lparr>console_level = log_level, file_handler = None\<rparr>,
           [(''WARNING'', ''Could not create log file: '' @ str_error e)])
      | Inr fs1 \<Rightarrow>
          (case open_append fs1 (pjoin output_dir ''photozipper.log'') of
             Inl e \<Rightarrow>
               (fs1, \<lparr>console_level = log_level, file_handler = None\<rparr>,
                [(''WARNING'', ''Could not create log file: '' @ str_error e)])
           | Inr fs2 \<Rightarrow>
               (fs2, \<lparr>console_level = log_level,
                      file_handler = Some (pjoin output_dir ''photozipper.log'')\<rparr>, [])))"

section \<open>Orchestration (cli.py)\<close>

text \<open>
  \<open>main\<close> is given the command line, either without any argument or as the arguments that
  \<^verbatim>\<open>parse_args\<close> returns (a command line that \<^verbatim>\<open>argparse\<close> rejects makes \<^verbatim>\<open>parse_args\<close>
  leave the program with exit status 2; \<open>main\<close> does not return then, and such command
  lines are not modelled). It returns the exit code with the final state of the run: the
  file system, the records logged, the lines printed to standard output and standard error,
  and the three counters. The progress bars are left out.
\<close>

record args =
  a_source :: path
  a_pattern :: string
  a_output :: path
  a_dry_run :: bool
  a_delete_originals :: bool
  a_zip_only :: bool
  a_log_level :: string

datatype command_line = NoArguments | Arguments args

record state =
  st_fs :: fs
  st_records :: "(string \<times> string) list"
  st_stdout :: "string list"
  st_stderr :: "string list"
  files_copied :: nat
  files_skipped :: nat
  files_deleted :: nat

text \<open>How a step of the run ends: it goes on, it returns from \<open>main\<close> with an exit code,
  or it raises an exception that the handler at the end of \<open>main\<close> catches.\<close>

datatype outcome = Continue state | Return nat state | Raise error state

definition log :: "string \<Rightarrow> string \<Rightarrow> state \<Rightarrow> state" where
  "log level msg st = st\<lparr>st_records := st_records st @ [(level, msg)]\<rparr>"

text \<open>\<^verbatim>\<open>str\<close> of a path and of a natural number.\<close>

fun join_path :: "string list \<Rightarrow> string" where
  "join_path [] = ''.''"
| "join_path [c] = c"
| "join_path (c # cs) = c @ ''/'' @ join_path cs"

fun str_nat :: "nat \<Rightarrow> string" where
  "str_nat n =
     (if n < 10 then [char_of (48 + n)] else str_nat (n div 10) @ [char_of (48 + n mod 10)])"

declare str_nat.simps [simp del]

definition validate_arguments :: "args \<Rightarrow> string option" where
  "validate_arguments a =
     (if a_dry_run a \<and> a_delete_originals a
      then Some ''Error: --dry-run and --delete-originals cannot be used together''
      else if a_dry_run a \<and> a_zip_only a
      then Some ''Error: --dry-run and --zip-only cannot be used together''
      else None)"

text \<open>\<^verbatim>\<open>shutil.rmtree\<close>: removes the directory and everything below it.\<close>

definition rmtree :: "fs \<Rightarrow> path \<Rightarrow> error + fs" where
  "rmtree fs p =
     (case lookup fs p of
        None \<Rightarrow> Inl FileNotFoundError
      | Some (File d r) \<Rightarrow> Inl NotADirectoryError
      | Some Dir \<Rightarrow> Inr (filter (\<lambda>e. take (length p) (fst e) \<noteq> p) fs))"

text \<open>The body of the loop over the files of a group (lines 217 to 254).\<close>

definition process_file ::
  "faults \<Rightarrow> args \<Rightarrow> path \<Rightarrow> state \<Rightarrow> SourceFile \<Rightarrow> outcome" where
  "process_file io a group_folder st source_file =
     (let target_path = pjoin group_folder (sf_name source_file) in
      if \<not> fst (handle_merge (st_fs st) target_path)
      then Continue (log ''INFO'' (''Skipping duplicate: '' @ sf_name source_file) st
                       \<lparr>files_skipped := files_skipped st + 1\<rparr>)
      else if a_dry_run a
      then Continue (log ''INFO'' (''[DRY RUN] Would copy: '' @ sf_name source_file @ '' -> ''
                                     @ join_path target_path) st)
      else (case copy_file_with_metadata io (st_fs st) (sf_path source_file) target_path of
              (fs1, copied) \<Rightarrow>
                (case verify_copy fs1 (sf_path source_file) target_path of
                   Inl e \<Rightarrow>
                     Return 1 (log ''ERROR'' (''Error copying '' @ sf_name source_file @ '': ''
                                                @ str_error e) (st\<lparr>st_fs := fs1\<rparr>))
                 | Inr False \<Rightarrow>
                     Return 1 (log ''ERROR'' (''Copy verification failed: '' @ sf_name source_file)
                                 (st\<lparr>st_fs := fs1\<rparr>))
                 | Inr True \<Rightarrow>
                     (let st1 = log ''DEBUG'' (''Copied: '' @ sf_name source_file)
                                  (st\<lparr>st_fs := fs1, files_copied := files_copied st + 1\<rparr>)
                      in if a_delete_originals a
                         then (case delete_original fs1 (sf_path source_file) of
                                 Inl e \<Rightarrow>
                                   Return 1 (log ''ERROR'' (''Error copying '' @ sf_name source_file
                                                              @ '': '' @ str_error e) st1)
                               | Inr (fs2, deleted) \<Rightarrow>
                                   Continue (log ''DEBUG'' (''Deleted original: '' @ sf_name source_file)
                                               (st1\<lparr>st_fs := fs2,
                                                    files_deleted := files_deleted st1 + 1\<rparr>)))
                         else Continue st1))))"

fun process_files ::
  "faults \<Rightarrow> args \<Rightarrow> path \<Rightarrow> state \<Rightarrow> SourceFile list \<Rightarrow> outcome" where
  "process_files io a group_folder st [] = Continue st"
| "process_files io a group_folder st (source_file # rest) =
     (case process_file io a group_folder st source_file of
        Continue st' \<Rightarrow> process_files io a group_folder st' rest
      | Return code st' \<Rightarrow> Return code st'
      | Raise e st' \<Rightarrow> Raise e st')"

text \<open>The creation of the archive of a group (lines 256 to 275).\<close>

definition archive_group :: "args \<Rightarrow> string \<Rightarrow> path \<Rightarrow> state \<Rightarrow> outcome" where
  "archive_group a group_name group_folder st =
     (let zip_path = pjoin (a_output a) (group_name @ ''.zip'') in
      if \<not> a_dry_run a
      then (case create_zip (st_fs st) group_folder zip_path of
              (fs1, Some e) \<Rightarrow>
                Return 1 (log ''ERROR'' (''Error creating ZIP for '' @ group_name @ '': '' @ str_error e)
                            (st\<lparr>st_fs := fs1\<rparr>))
            | (fs1, None) \<Rightarrow>
                (let st1 = log ''INFO'' (''Created ZIP: '' @ pname zip_path) (st\<lparr>st_fs := fs1\<rparr>)
                 in if a_zip_only a
                    then (case rmtree fs1 group_folder of
                            Inl e \<Rightarrow>
                              Return 1 (log ''ERROR'' (''Error creating ZIP for '' @ group_name @ '': ''
                                                         @ str_error e) st1)
                          | Inr fs2 \<Rightarrow>
                              Continue (log ''INFO'' (''Removed folder: '' @ pname group_folder)
                                          (st1\<lparr>st_fs := fs2\<rparr>)))
                    else Continue st1))
      else (let st1 = log ''INFO'' (''[DRY RUN] Would create ZIP: '' @ pname zip_path) st
            in if a_zip_only a
               then Continue (log ''INFO'' (''[DRY RUN] Would remove folder: '' @ group_name) st1)
               else Continue st1))"

text \<open>The creation of the folder of a group (lines 207 to 214): the new state, or the
  exception of \<^verbatim>\<open>create_folder\<close>.\<close>

definition prepare_folder :: "args \<Rightarrow> path \<Rightarrow> state \<Rightarrow> error + state" where
  "prepare_folder a group_folder st =
     (if \<not> a_dry_run a
      then (case create_folder (st_fs st) group_folder of
              Inl e \<Rightarrow> Inl e
            | Inr fs1 \<Rightarrow>
                Inr (log ''DEBUG'' (''Created folder: '' @ join_path group_folder) (st\<lparr>st_fs := fs1\<rparr>)))
      else Inr (log ''INFO'' (''[DRY RUN] Would create folder: '' @ join_path group_folder) st))"

text \<open>The body of the loop over the groups (lines 203 to 275).\<close>

definition process_group :: "faults \<Rightarrow> args \<Rightarrow> state \<Rightarrow> FileGroup \<Rightarrow> outcome" where
  "process_group io a st grp =
     (let group_name = fg_name grp;
          st0 = log ''INFO'' (''Processing group '' @ [CHR 0x27] @ group_name @ [CHR 0x27] @ '' (''
                               @ str_nat (file_count grp) @ '' file(s))'') st;
          group_folder = pjoin (a_output a) group_name
      in case prepare_folder a group_folder st0 of
           Inl e \<Rightarrow> Raise e st0
         | Inr st1 \<Rightarrow>
             (case process_files io a group_folder st1 (fg_files grp) of
                Continue st2 \<Rightarrow> archive_group a group_name group_folder st2
              | Return code st2 \<Rightarrow> Return code st2
              | Raise e st2 \<Rightarrow> Raise e st2))"

fun process_groups :: "faults \<Rightarrow> args \<Rightarrow> state \<Rightarrow> FileGroup list \<Rightarrow> outcome" where
  "process_groups io a st [] = Continue st"
| "process_groups io a st (grp # rest) =
     (case process_group io a st grp of
        Continue st' \<Rightarrow> process_groups io a st' rest
      | Return code st' \<Rightarrow> Return code st'
      | Raise e st' \<Rightarrow> Raise e st')"

fun join_names :: "string list \<Rightarrow> string" where
  "join_names [] = []"
| "join_names [n] = n"
| "join_names (n # ns) = n @ '', '' @ join_names ns"

definition summary :: "args \<Rightarrow> state \<Rightarrow> FileGroup list \<Rightarrow> string" where
  "summary a st groups =
     (if a_dry_run a
      then ''[DRY RUN] Would process '' @ str_nat (sum_list (map file_count groups)) @ '' files in ''
             @ str_nat (length groups) @ '' groups''
      else ''Successfully organized '' @ str_nat (files_copied st) @ '' files into ''
             @ str_nat (length groups) @ '' groups''
             @ (if files_skipped st > 0 then '' ('' @ str_nat (files_skipped st) @ '' skipped)'' else [])
             @ (if files_deleted st > 0 then '' ('' @ str_nat (files_deleted st) @ '' deleted)'' else []))"

text \<open>The handler at the end of \<open>main\<close> (lines 298 to 301).\<close>

definition unexpected :: "error \<Rightarrow> state \<Rightarrow> nat \<times> state" where
  "unexpected e st =
     (1, (log ''ERROR'' (''Unexpected error: '' @ str_error e) st)
           \<lparr>st_stderr := st_stderr st @ [''Error: '' @ str_error e]\<rparr>)"

text \<open>The \<^verbatim>\<open>try\<close> block of \<open>main\<close> (lines 171 to 296).\<close>

definition organize ::
  "(string \<Rightarrow> string + rexp) \<Rightarrow> faults \<Rightarrow> args \<Rightarrow> state \<Rightarrow> nat \<times> state" where
  "organize re_compile io a st =
     (let st1 = log ''INFO'' (if a_dry_run a
                              then ''[DRY RUN] Starting organization (no changes will be made)''
                              else ''Starting organization'') st;
          st2 = log ''INFO'' (''Source: '' @ join_path (a_source a)) st1;
          st3 = log ''INFO'' (''Pattern: '' @ a_pattern a) st2;
          st4 = log ''INFO'' (''Output: '' @ join_path (a_output a)) st3;
          st5 = log ''INFO'' ''Scanning source directory...'' st4
      in case scan_and_group re_compile (st_fs st5) (a_source a) (a_pattern a) of
           Inl e \<Rightarrow> unexpected e st5
         | Inr groups \<Rightarrow>
             if groups = []
             then (0, (log ''WARNING'' ''No files matched the pattern'' st5)
                        \<lparr>st_stdout := st_stdout st5 @ [''No files matched the pattern'']\<rparr>)
             else (case process_groups io a
                          (log ''INFO'' (''Found '' @ str_nat (length groups) @ '' group(s)'') st5)
                          groups of
                     Return code st' \<Rightarrow> (code, st')
                   | Raise e st' \<Rightarrow> unexpected e st'
                   | Continue st' \<Rightarrow>
                       (0, (log ''INFO'' (summary a st' groups) st')
                             \<lparr>st_stdout := st_stdout st' @
                                (if groups \<noteq> []
                                 then [summary a st' groups,
                                       ''Groups: '' @ join_names (map fg_name groups)]
                                 else [summary a st' groups])\<rparr>)))"

definition initial_state :: "fs \<Rightarrow> state" where
  "initial_state fs =
     \<lparr>st_fs = fs, st_records = [], st_stdout = [], st_stderr = [],
      files_copied = 0, files_skipped = 0, files_deleted = 0\<rparr>"

text \<open>The first line of what \<^verbatim>\<open>print_help\<close> prints stands for the whole help text.\<close>

definition help_text :: string where
  "help_text = ''usage: photozipper [-h] --source SOURCE --pattern PATTERN --output OUTPUT''"

definition main ::
  "(string \<Rightarrow> string + rexp) \<Rightarrow> faults \<Rightarrow> command_line \<Rightarrow> fs \<Rightarrow> nat \<times> state" where
  "main re_compile io argv fs =
     (case argv of
        NoArguments \<Rightarrow> (2, (initial_state fs)\<lparr>st_stdout := [help_text]\<rparr>)
      | Arguments a \<Rightarrow>
     (case validate_arguments a of
        Some error_msg \<Rightarrow> (1, (initial_state fs)\<lparr>st_stderr := [error_msg]\<rparr>)
      | None \<Rightarrow>
          if \<not> exists fs (a_source a)
          then (1, (initial_state fs)
                     \<lparr>st_stderr := [''Error: Source directory does not exist: '' @ join_path (a_source a)]\<rparr>)
          else if \<not> is_dir fs (a_source a)
          then (1, (initial_state fs)
                     \<lparr>st_stderr := [''Error: Source path is not a directory: '' @ join_path (a_source a)]\<rparr>)
          else (case validate_pattern re_compile (a_pattern a) of
                  Inl msg \<Rightarrow> (1, (initial_state fs)\<lparr>st_stderr := [''Error: '' @ msg]\<rparr>)
                | Inr ok \<Rightarrow>
                    (case setup_logging fs (a_output a) (a_log_level a) of
                       (fs1, logger, records) \<Rightarrow>
                         organize re_compile io a
                           ((initial_state fs)\<lparr>st_fs := fs1, st_records := records\<rparr>)))))"

text \<open>A compiler for the patterns of the examples: a pattern without metacharacters compiles to
  the sequence of its characters, as \<^verbatim>\<open>re.compile\<close> has it; no other pattern is used with
  it.\<close>

definition literal :: "string \<Rightarrow> rexp" where
  "literal p = foldr (\<lambda>c r. Seq (Chr c) r) p Eps"

definition compile_literal :: "string \<Rightarrow> string + rexp" where
  "compile_literal p =
     (if list_ex (\<lambda>c. c \<in> set ''.^$*+?{}[]|()'' \<or> c = CHR 0x5C) p
      then Inl ''not a literal pattern''
      else Inr (literal p))"

section \<open>Notions used in the statements about a run\<close>

text \<open>The state in which the work on a group starts: the record that announces the group
  has been logged.\<close>

definition group_start :: "state \<Rightarrow> FileGroup \<Rightarrow> state" where
  "group_start st grp =
     log ''INFO'' (''Processing group '' @ [CHR 0x27] @ fg_name grp @ [CHR 0x27] @ '' (''
                    @ str_nat (file_count grp) @ '' file(s))'') st"

text \<open>\<open>only_adds fs fs' allowed\<close>: every path that exists in \<open>fs\<close> holds the same node in
  \<open>fs'\<close>, and every node of \<open>fs'\<close> at a path that does not exist in \<open>fs\<close> is one that
  \<open>allowed\<close> admits.\<close>

definition only_adds :: "fs \<Rightarrow> fs \<Rightarrow> (path \<Rightarrow> node \<Rightarrow> bool) \<Rightarrow> bool" where
  "only_adds fs fs' allowed =
     ((\<forall>q. exists fs q \<longrightarrow> lookup fs' q = lookup fs q)
      \<and> (\<forall>q n. lookup fs' q = Some n \<and> \<not> exists fs q \<longrightarrow> allowed q n))"

text \<open>What the logger may create: the output directory and its ancestors, and an empty
  \<^verbatim>\<open>photozipper.log\<close> in the output directory.\<close>

definition logger_entry :: "path \<Rightarrow> path \<Rightarrow> node \<Rightarrow> bool" where
  "logger_entry output_dir q n =
     ((n = Dir \<and> take (length q) output_dir = q)
      \<or> (q = pjoin output_dir ''photozipper.log'' \<and> n = File (Raw []) True))"

text \<open>The log file of a run, and a file system without the entry of a path: the records
  of a run are appended to its log file, and the text of the log file is not part of the
  model, so the statements about what a run leaves unchanged leave the log file out.\<close>

definition log_file :: "args \<Rightarrow> path" where
  "log_file a = pjoin (a_output a) ''photozipper.log''"

definition without :: "fs \<Rightarrow> path \<Rightarrow> fs" where
  "without fs p = AList.delete p fs"

text \<open>The directories that \<^verbatim>\<open>mkdir(parents=True)\<close> may create for the output directory: the
  directory itself and its ancestors.\<close>

definition output_ancestor :: "path \<Rightarrow> path \<Rightarrow> node \<Rightarrow> bool" where
  "output_ancestor output_dir q n = (n = Dir \<and> take (length q) output_dir = q)"

text \<open>The validation errors: incompatible flags, a source that does not exist or is not a
  directory, a pattern that \<^verbatim>\<open>validate_pattern\<close> rejects.\<close>

definition validation_error :: "(string \<Rightarrow> string + rexp) \<Rightarrow> args \<Rightarrow> fs \<Rightarrow> bool" where
  "validation_error re_compile a fs =
     (validate_arguments a \<noteq> None \<or> \<not> exists fs (a_source a) \<or> \<not> is_dir fs (a_source a)
      \<or> isl (validate_pattern re_compile (a_pattern a)))"

text \<open>The state in which \<open>main\<close> enters the loop over the \<open>n\<close> groups it has found: the
  logger is set up and the records up to the number of groups are logged.\<close>

definition loop_start :: "args \<Rightarrow> fs \<Rightarrow> nat \<Rightarrow> state" where
  "loop_start a fs n =
     log ''INFO'' (''Found '' @ str_nat n @ '' group(s)'')
       (log ''INFO'' ''Scanning source directory...''
         (log ''INFO'' (''Output: '' @ join_path (a_output a))
           (log ''INFO'' (''Pattern: '' @ a_pattern a)
             (log ''INFO'' (''Source: '' @ join_path (a_source a))
               (log ''INFO'' (if a_dry_run a
                              then ''[DRY RUN] Starting organization (no changes will be made)''
                              else ''Starting organization'')
                  ((initial_state fs)
                     \<lparr>st_fs := fst (setup_logging fs (a_output a) (a_log_level a)),
                      st_records := snd (snd (setup_logging fs (a_output a) (a_log_level a)))\<rparr>))))))"

text \<open>The state in which the run, started in \<open>st0\<close> on the groups \<open>before\<close> followed by
  \<open>grp\<close>, has processed the groups \<open>before\<close>, has made the folder of \<open>grp\<close> and has
  processed the files \<open>pre\<close> with which \<open>grp\<close> begins; \<open>None\<close> when the run ends before.\<close>

definition reaches_file ::
  "faults \<Rightarrow> args \<Rightarrow> state \<Rightarrow> FileGroup list \<Rightarrow> FileGroup \<Rightarrow> SourceFile list \<Rightarrow> state option" where
  "reaches_file io a st0 before grp pre =
     (case process_groups io a st0 before of
        Continue st1 \<Rightarrow>
          (case prepare_folder a (pjoin (a_output a) (fg_name grp)) (group_start st1 grp) of
             Inr st2 \<Rightarrow>
               (case process_files io a (pjoin (a_output a) (fg_name grp)) st2 pre of
                  Continue st3 \<Rightarrow> Some st3
                | Return code st3 \<Rightarrow> None
                | Raise e st3 \<Rightarrow> None)
           | Inl e \<Rightarrow> None)
      | Return code st1 \<Rightarrow> None
      | Raise e st1 \<Rightarrow> None)"

text \<open>The last record logged is an error record.\<close>

definition error_logged :: "state \<Rightarrow> bool" where
  "error_logged st = (st_records st \<noteq> [] \<and> fst (last (st_records st)) = ''ERROR'')"

text \<open>A group identifier that names a folder of its own in the output directory:
  \<^verbatim>\<open>pathlib\<close> drops an empty component and the component \<^verbatim>\<open>.\<close>, so that the folder of such a
  group is the output directory itself, and \<^verbatim>\<open>..\<close> is the directory above, which the model
  does not resolve.\<close>

definition plain_name :: "string \<Rightarrow> bool" where
  "plain_name g = (g \<noteq> [] \<and> g \<noteq> ''.'' \<and> g \<noteq> ''..'')"

text \<open>A regular file that can be read.\<close>

definition file_readable :: "fs \<Rightarrow> path \<Rightarrow> bool" where
  "file_readable fs p = (case lookup fs p of Some (File d r) \<Rightarrow> r | _ \<Rightarrow> False)"

text \<open>The archive at \<open>z\<close> is the one \<^verbatim>\<open>create_zip\<close> would write for the folder now.\<close>

definition zip_current :: "fs \<Rightarrow> path \<Rightarrow> path \<Rightarrow> bool" where
  "zip_current fs folder z =
     (is_dir fs folder
      \<and> (\<exists>r. lookup fs z =
                Some (File (Archive (map (\<lambda>p. (pname p, file_data fs p))
                                      (filter (is_file fs) (children fs folder)))) r))
      \<and> (\<forall>p \<in> set (children fs folder). is_file fs p \<longrightarrow> file_readable fs p))"

text \<open>What the work on the group \<open>h\<close> may change in a run with the output directory
  \<open>out\<close>: a path that exists keeps its node, unless it is the archive of the group;
  the listings of the directories other than the output directory and the folder of the
  group stay; the paths that are not longer than that of the output directory keep their
  nodes.\<close>

definition group_step :: "path \<Rightarrow> string \<Rightarrow> fs \<Rightarrow> fs \<Rightarrow> bool" where
  "group_step out h fs fs' =
     ((\<forall>p. exists fs p \<and> p \<noteq> out @ [h @ ''.zip''] \<longrightarrow> lookup fs' p = lookup fs p)
      \<and> (\<forall>p. is_dir fs p \<longrightarrow> is_dir fs' p)
      \<and> (\<forall>p. exists fs p \<longrightarrow> exists fs' p)
      \<and> (\<forall>d. d \<noteq> out \<and> d \<noteq> out @ [h] \<longrightarrow> children fs' d = children fs d)
      \<and> (\<forall>p. length p \<le> length out \<longrightarrow> lookup fs' p = lookup fs p))"

text \<open>The output directory is there, or \<^verbatim>\<open>mkdir\<close> cannot make it.\<close>

definition out_settled :: "fs \<Rightarrow> path \<Rightarrow> bool" where
  "out_settled fs out = (isl (mkdir_parents fs out) \<or> is_dir fs out)"

text \<open>The work on a group is done: its folder is there, the target of each of its files
  exists, and its archive is the one that \<^verbatim>\<open>create_zip\<close> would write.\<close>

definition group_done :: "args \<Rightarrow> fs \<Rightarrow> FileGroup \<Rightarrow> bool" where
  "group_done a fs grp =
     (is_dir fs (a_output a @ [fg_name grp])
      \<and> (\<forall>sf \<in> set (fg_files grp). exists fs (pjoin (a_output a @ [fg_name grp]) (sf_name sf)))
      \<and> zip_current fs (a_output a @ [fg_name grp]) (a_output a @ [fg_name grp @ ''.zip'']))"

text \<open>What the work on the groups with the names \<open>hs\<close> may change: as for one group,
  and the archive of a group with another name stays the one \<^verbatim>\<open>create_zip\<close> would write.\<close>

definition run_step :: "path \<Rightarrow> string set \<Rightarrow> fs \<Rightarrow> fs \<Rightarrow> bool" where
  "run_step out hs fs fs' =
     ((\<forall>p. exists fs p \<and> (\<forall>h \<in> hs. p \<noteq> out @ [h @ ''.zip'']) \<longrightarrow> lookup fs' p = lookup fs p)
      \<and> (\<forall>p. is_dir fs p \<longrightarrow> is_dir fs' p)
      \<and> (\<forall>p. exists fs p \<longrightarrow> exists fs' p)
      \<and> (\<forall>p. length p \<le> length out \<longrightarrow> lookup fs' p = lookup fs p)
      \<and> (\<forall>g. g \<notin> hs \<longrightarrow> zip_current fs (out @ [g]) (out @ [g @ ''.zip''])
              \<longrightarrow> zip_current fs' (out @ [g]) (out @ [g @ ''.zip''])))"

section \<open>What the scan is specified to return\<close>

text \<open>
  The specification of \<^verbatim>\<open>scanAndGroup\<close> in its own words, for a listing \<open>items\<close> of the
  directory: the files that count are the regular files whose name the pattern matches; the
  identifiers are those of these files, each once, in the order of first appearance; the group
  of an identifier holds the files with that identifier, in the order of the listing.
\<close>

definition first_seen :: "'a list \<Rightarrow> 'a list" where
  "first_seen xs = rev (remdups (rev xs))"

definition group_of :: "(string \<Rightarrow> string + rexp) \<Rightarrow> string \<Rightarrow> path \<Rightarrow> string option" where
  "group_of re_compile pattern item =
     (case extract_group re_compile (pname item) pattern of
        Inr (Some g) \<Rightarrow> Some g
      | _ \<Rightarrow> None)"

definition source_file_of :: "fs \<Rightarrow> string \<Rightarrow> path \<Rightarrow> SourceFile" where
  "source_file_of fs g item =
     \<lparr>sf_path = item, sf_name = pname item,
      sf_size = (case stat_size fs item of Inr n \<Rightarrow> n | Inl e \<Rightarrow> 0), sf_group = g\<rparr>"

definition matching :: "(string \<Rightarrow> string + rexp) \<Rightarrow> fs \<Rightarrow> string \<Rightarrow> path list \<Rightarrow> path list" where
  "matching re_compile fs pattern items =
     filter (\<lambda>item. is_file fs item \<and> group_of re_compile pattern item \<noteq> None) items"

definition group_spec ::
  "(string \<Rightarrow> string + rexp) \<Rightarrow> fs \<Rightarrow> string \<Rightarrow> path list \<Rightarrow> string \<Rightarrow> FileGroup" where
  "group_spec re_compile fs pattern items g =
     \<lparr>fg_name = g,
      fg_files = map (source_file_of fs g)
                   (filter (\<lambda>item. group_of re_compile pattern item = Some g)
                      (matching re_compile fs pattern items))\<rparr>"

definition scan_and_group_spec ::
  "(string \<Rightarrow> string + rexp) \<Rightarrow> fs \<Rightarrow> string \<Rightarrow> path list \<Rightarrow> FileGroup list" where
  "scan_and_group_spec re_compile fs pattern items =
     map (group_spec re_compile fs pattern items)
       (first_seen (List.map_filter (group_of re_compile pattern)
          (matching re_compile fs pattern items)))"

text \<open>The dictionary of the loop after the entries \<open>items\<close>.\<close>

definition dict_of ::
  "(string \<Rightarrow> string + rexp) \<Rightarrow> fs \<Rightarrow> string \<Rightarrow> path list \<Rightarrow> (string \<times> FileGroup) list" where
  "dict_of re_compile fs pattern items =
     map (\<lambda>g. (g, group_spec re_compile fs pattern items g))
       (first_seen (List.map_filter (group_of re_compile pattern)
          (matching re_compile fs pattern items)))"

section \<open>Example file systems\<close>

text \<open>A compiler for the patterns of the examples: the pattern \<^verbatim>\<open>trip\d{4}\<close> and the patterns
  without metacharacters.\<close>

text \<open>A device on which no copy is interrupted.\<close>

definition no_faults :: faults where
  "no_faults source target = NoFault"

text \<open>A device on which the metadata of \<^verbatim>\<open>trip_b.jpg\<close> cannot be copied (\<^verbatim>\<open>copy2\<close> raises
  after the data was written), and one on which the writing of \<^verbatim>\<open>trip_b.jpg\<close> is
  interrupted after the first character.\<close>

definition metadata_fault :: faults where
  "metadata_fault source target =
     (if source = [''src'', ''trip_b.jpg''] then Interrupted (Raw ''bb'') else NoFault)"

definition write_fault :: faults where
  "write_fault source target =
     (if source = [''src'', ''trip_b.jpg''] then Interrupted (Raw ''b'') else NoFault)"

definition digit :: rexp where
  "digit = OneOf ''0123456789''"

definition trip_pattern :: string where
  "trip_pattern = ''trip'' @ [CHR 0x5C] @ ''d{4}''"

definition compile_example :: "string \<Rightarrow> string + rexp" where
  "compile_example p =
     (if p = trip_pattern
      then Inr (Seq (literal ''trip'') (Seq digit (Seq digit (Seq digit digit))))
      else compile_literal p)"

definition fs_trip :: fs where
  "fs_trip =
     [([''src''], Dir),
      ([''src'', ''trip2004_01.jpg''], File (Raw ''a'') True),
      ([''src'', ''notes.txt''], File (Raw ''n'') True),
      ([''src'', ''trip2005_01.jpg''], File (Raw ''bb'') True),
      ([''src'', ''trip2004_02.jpg''], File (Raw ''ccc'') True),
      ([''src'', ''trip2009''], Dir),
      ([''src'', ''trip2009'', ''trip2009_x.jpg''], File (Raw ''x'') True)]"

definition fs_truncated :: fs where
  "fs_truncated =
     [([''src''], Dir), ([''src'', ''a.jpg''], File (Raw ''abcd'') True), ([''out''], Dir)]"

definition fs_zip :: fs where
  "fs_zip =
     [([''out''], Dir),
      ([''out'', ''vacation''], Dir),
      ([''out'', ''vacation'', ''vacation_beach.jpg''], File (Raw ''b'') True),
      ([''out'', ''vacation'', ''sub''], Dir),
      ([''out'', ''vacation'', ''sub'', ''deep.jpg''], File (Raw ''d'') True),
      ([''out'', ''vacation'', ''vacation_sunset.jpg''], File (Raw ''ss'') True),
      ([''out'', ''empty''], Dir)]"

definition fs_zip_after :: fs where
  "fs_zip_after =
     fs_zip @ [([''out'', ''vacation.zip''],
                File (Archive [(''vacation_beach.jpg'', Raw ''b''), (''vacation_sunset.jpg'', Raw ''ss'')])
                  True)]"

definition fs_merge :: fs where
  "fs_merge =
     [([''src''], Dir),
      ([''src'', ''merge_a.jpg''], File (Raw ''DIFFERENT'') True),
      ([''out''], Dir),
      ([''out'', ''merge''], Dir),
      ([''out'', ''merge'', ''merge_a.jpg''], File (Raw ''1'') True)]"

definition args_merge :: args where
  "args_merge =
     \<lparr>a_source = [''src''], a_pattern = ''merge'', a_output = [''out''], a_dry_run = False,
      a_delete_originals = False, a_zip_only = False, a_log_level = ''INFO''\<rparr>"

definition fs_dry :: fs where
  "fs_dry =
     [([''src''], Dir),
      ([''src'', ''test_file1.jpg''], File (Raw ''x'') True),
      ([''src'', ''test_file2.jpg''], File (Raw ''y'') True)]"

definition args_dry :: args where
  "args_dry =
     \<lparr>a_source = [''src''], a_pattern = ''test_'', a_output = [''out''], a_dry_run = True,
      a_delete_originals = False, a_zip_only = False, a_log_level = ''INFO''\<rparr>"

definition fs_unreadable :: fs where
  "fs_unreadable =
     [([''src''], Dir),
      ([''src'', ''trip_a.jpg''], File (Raw ''aaa'') False),
      ([''src'', ''trip_b.jpg''], File (Raw ''bb'') True),
      ([''out''], Dir)]"

definition args_trip :: args where
  "args_trip =
     \<lparr>a_source = [''src''], a_pattern = ''trip'', a_output = [''out''], a_dry_run = False,
      a_delete_originals = False, a_zip_only = False, a_log_level = ''INFO''\<rparr>"

text \<open>A state in which the archive of the group \<^verbatim>\<open>trip\<close> cannot be written: its path is a
  directory.\<close>

definition fs_zip_blocked :: fs where
  "fs_zip_blocked =
     [([''src''], Dir),
      ([''src'', ''trip_b.jpg''], File (Raw ''bb'') True),
      ([''out''], Dir),
      ([''out'', ''trip.zip''], Dir)]"

definition args_blank :: args where
  "args_blank = args_trip\<lparr>a_pattern := '' ''\<rparr>"

definition sf_trip_a :: SourceFile where
  "sf_trip_a = \<lparr>sf_path = [''src'', ''trip_a.jpg''], sf_name = ''trip_a.jpg'', sf_size = 3,
                sf_group = ''trip''\<rparr>"

definition sf_trip_b :: SourceFile where
  "sf_trip_b = \<lparr>sf_path = [''src'', ''trip_b.jpg''], sf_name = ''trip_b.jpg'', sf_size = 2,
                sf_group = ''trip''\<rparr>"

text \<open>A run over the years of \<open>fs_trip\<close>, also with \<^verbatim>\<open>--zip-only\<close>; the file systems that
  the first runs leave and the groups that they find.\<close>

definition args_years :: args where
  "args_years =
     \<lparr>a_source = [''src''], a_pattern = trip_pattern, a_output = [''out''], a_dry_run = False,
      a_delete_originals = False, a_zip_only = False, a_log_level = ''INFO''\<rparr>"

definition fs_years_done :: fs where
  "fs_years_done = st_fs (snd (main compile_example no_faults (Arguments args_years) fs_trip))"

definition args_years_zip :: args where
  "args_years_zip = args_years\<lparr>a_zip_only := True\<rparr>"

definition fs_years_zip_done :: fs where
  "fs_years_zip_done = st_fs (snd (main compile_example no_faults (Arguments args_years_zip) fs_trip))"

definition groups_years :: "FileGroup list" where
  "groups_years =
     [\<lparr>fg_name = ''trip2004'',
       fg_files =
         [\<lparr>sf_path = [''src'', ''trip2004_01.jpg''], sf_name = ''trip2004_01.jpg'', sf_size = 1,
           sf_group = ''trip2004''\<rparr>,
          \<lparr>sf_path = [''src'', ''trip2004_02.jpg''], sf_name = ''trip2004_02.jpg'', sf_size = 3,
           sf_group = ''trip2004''\<rparr>]\<rparr>,
      \<lparr>fg_name = ''trip2005'',
       fg_files =
         [\<lparr>sf_path = [''src'', ''trip2005_01.jpg''], sf_name = ''trip2005_01.jpg'', sf_size = 2,
           sf_group = ''trip2005''\<rparr>]\<rparr>]"

text \<open>A pattern that gives one file the identifier \<^verbatim>\<open>.\<close> and another the identifier
  \<^verbatim>\<open>t\<close>.\<close>

definition compile_dot :: "string \<Rightarrow> string + rexp" where
  "compile_dot p = (if p = ''[.t]'' then Inr (OneOf ''.t'') else compile_literal p)"

definition fs_dot :: fs where
  "fs_dot =
     [([''src''], Dir),
      ([''src'', ''a.jpg''], File (Raw ''a'') True),
      ([''src'', ''trip.jpg''], File (Raw ''t'') True)]"

definition args_dot :: args where
  "args_dot =
     \<lparr>a_source = [''src''], a_pattern = ''[.t]'', a_output = [''out''], a_dry_run = False,
      a_delete_originals = False, a_zip_only = False, a_log_level = ''INFO''\<rparr>"

definition fs_dot_done :: fs where
  "fs_dot_done = st_fs (snd (main compile_dot no_faults (Arguments args_dot) fs_dot))"

text \<open>What a first preview run leaves.\<close>

definition fs_dry_done :: fs where
  "fs_dry_done = st_fs (snd (main compile_example no_faults (Arguments args_dry) fs_dry))"

section \<open>Verification of a copy\<close>

lemma stat_size_exists: "stat_size fs p = Inr n \<Longrightarrow> exists fs p"
  by (auto simp: stat_size_def exists_def split: option.splits)

lemma exists_stat_size: "exists fs p \<Longrightarrow> \<exists>n. stat_size fs p = Inr n"
  by (auto simp: stat_size_def exists_def split: option.splits node.splits)

lemma lookup_put: "p \<noteq> [] \<Longrightarrow> lookup (put fs p n) q = (if q = p then Some n else lookup fs q)"
  by (simp add: lookup_def put_def update_conv')

text \<open>
  Claim C9. \<^verbatim>\<open>verify_copy(source, target)\<close> returns \<^verbatim>\<open>True\<close> exactly when the target exists
  and the sizes that \<^verbatim>\<open>stat\<close> reports for source and target are the same number; and when
  the target holds only the first \<open>k\<close> characters of a longer source (a truncated write),
  it returns \<^verbatim>\<open>False\<close>.
\<close>

theorem verify_copy_true_iff_same_size:
  "(verify_copy fs source target = Inr True) =
     (exists fs target \<and> (\<exists>n. stat_size fs source = Inr n \<and> stat_size fs target = Inr n))
   \<and> (lookup fs source = Some (File (Raw s) r) \<and> k < length s \<and> target \<noteq> source \<and> target \<noteq> []
        \<longrightarrow> verify_copy (put fs target (File (Raw (take k s)) r')) source target = Inr False)"
proof (intro conjI impI)
  show "(verify_copy fs source target = Inr True) =
     (exists fs target \<and> (\<exists>n. stat_size fs source = Inr n \<and> stat_size fs target = Inr n))"
    by (auto simp: verify_copy_def split: sum.splits dest: stat_size_exists)
next
  assume a: "lookup fs source = Some (File (Raw s) r) \<and> k < length s \<and> target \<noteq> source \<and> target \<noteq> []"
  let ?fs = "put fs target (File (Raw (take k s)) r')"
  from a have t: "lookup ?fs target = Some (File (Raw (take k s)) r')"
    by (simp add: lookup_put)
  from a have s: "lookup ?fs source = Some (File (Raw s) r)"
    by (auto simp: lookup_put)
  from a show "verify_copy ?fs source target = Inr False"
    by (simp add: verify_copy_def exists_def stat_size_def t s)
qed

theorem verify_copy_true_iff_same_size_witness:
  "lookup fs_truncated [''src'', ''a.jpg''] = Some (File (Raw ''abcd'') True)
   \<and> (2::nat) < length ''abcd''
   \<and> verify_copy (put fs_truncated [''out'', ''a.jpg''] (File (Raw (take 2 ''abcd'')) True))
        [''src'', ''a.jpg''] [''out'', ''a.jpg''] = Inr False
   \<and> verify_copy (put fs_truncated [''out'', ''a.jpg''] (File (Raw ''abcd'') True))
        [''src'', ''a.jpg''] [''out'', ''a.jpg''] = Inr True"
proof -
  have l: "lookup fs_truncated [''src'', ''a.jpg''] = Some (File (Raw ''abcd'') True)"
    by (simp add: fs_truncated_def lookup_def)
  have t: "verify_copy (put fs_truncated [''out'', ''a.jpg''] (File (Raw (take 2 ''abcd'')) True))
        [''src'', ''a.jpg''] [''out'', ''a.jpg''] = Inr False"
    using verify_copy_true_iff_same_size
      [of fs_truncated "[''src'', ''a.jpg'']" "[''out'', ''a.jpg'']" "''abcd''" True 2 True] l
    by simp
  have e: "verify_copy (put fs_truncated [''out'', ''a.jpg''] (File (Raw ''abcd'') True))
        [''src'', ''a.jpg''] [''out'', ''a.jpg''] = Inr True"
    by (simp add: verify_copy_def exists_def lookup_def stat_size_def put_def fs_truncated_def)
  from l t e show ?thesis by simp
qed

text \<open>
  Claim C10. \<^verbatim>\<open>verify_copy\<close> does not always return a boolean: when the target exists and
  the source does not, \<^verbatim>\<open>source.stat()\<close> raises \<^verbatim>\<open>FileNotFoundError\<close> and nothing in
  \<^verbatim>\<open>verify_copy\<close> catches it. When the target is absent the result is \<^verbatim>\<open>False\<close> whatever
  the source is, existing or not.
\<close>

theorem verify_copy_raises_on_missing_source:
  "(exists fs target \<and> \<not> exists fs source \<longrightarrow> verify_copy fs source target = Inl FileNotFoundError)
   \<and> (\<not> exists fs target \<longrightarrow> (\<forall>src. verify_copy fs src target = Inr False))"
  by (auto simp: verify_copy_def stat_size_def exists_def split: option.splits)

theorem verify_copy_raises_on_missing_source_witness:
  "exists fs_truncated [''src'', ''a.jpg''] \<and> \<not> exists fs_truncated [''src'', ''gone.jpg'']
   \<and> verify_copy fs_truncated [''src'', ''gone.jpg''] [''src'', ''a.jpg''] = Inl FileNotFoundError
   \<and> \<not> exists fs_truncated [''out'', ''a.jpg'']
   \<and> verify_copy fs_truncated [''src'', ''gone.jpg''] [''out'', ''a.jpg''] = Inr False
   \<and> verify_copy fs_truncated [''src'', ''a.jpg''] [''out'', ''a.jpg''] = Inr False"
proof -
  have a: "exists fs_truncated [''src'', ''a.jpg'']"
    and b: "\<not> exists fs_truncated [''src'', ''gone.jpg'']"
    and c: "\<not> exists fs_truncated [''out'', ''a.jpg'']"
    by (simp_all add: exists_def lookup_def fs_truncated_def)
  from a b c verify_copy_raises_on_missing_source
      [of fs_truncated "[''src'', ''a.jpg'']" "[''src'', ''gone.jpg'']"]
    verify_copy_raises_on_missing_source
      [of fs_truncated "[''out'', ''a.jpg'']" "[''src'', ''gone.jpg'']"]
  show ?thesis by simp
qed

section \<open>The group identifier of a file name\<close>





lemma one_char_start: "P x \<Longrightarrow> e \<in> set (case x # e of [] \<Rightarrow> [] | x # xs \<Rightarrow> if P x then [xs] else [])"
  by simp












section \<open>Scanning a directory\<close>

lemma first_seen_snoc:
  "first_seen (xs @ [x]) = (if x \<in> set xs then first_seen xs else first_seen xs @ [x])"
  by (simp add: first_seen_def)

lemma set_first_seen: "set (first_seen xs) = set xs"
  by (simp add: first_seen_def)

lemma first_seen_Nil: "first_seen [] = []"
  by (simp add: first_seen_def)

lemma map_of_keyed:
  "map_of (map (\<lambda>k. (k, F k)) ks) g = (if g \<in> set ks then Some (F g) else None)"
  by (induction ks) auto

lemma update_absent:
  "g \<notin> set ks \<Longrightarrow> AList.update g v (map (\<lambda>k. (k, F k)) ks) = map (\<lambda>k. (k, F k)) ks @ [(g, v)]"
  by (induction ks) auto

lemma update_keyed:
  "g \<in> set ks \<Longrightarrow> distinct ks \<Longrightarrow>
     AList.update g v (map (\<lambda>k. (k, F k)) ks) = map (\<lambda>k. (k, if k = g then v else F k)) ks"
proof (induction ks)
  case Nil
  then show ?case by simp
next
  case (Cons k ks)
  show ?case
  proof (cases "k = g")
    case True
    with Cons.prems have "g \<notin> set ks" by simp
    then have "map (\<lambda>k. (k, if k = g then v else F k)) ks = map (\<lambda>k. (k, F k)) ks"
      by (intro map_cong) auto
    with True show ?thesis by simp
  next
    case False
    with Cons show ?thesis by simp
  qed
qed

lemma distinct_first_seen: "distinct (first_seen xs)"
  by (simp add: first_seen_def)

lemma update_last:
  "g \<notin> fst ` set xs \<Longrightarrow> AList.update g v (xs @ [(g, w)]) = xs @ [(g, v)]"
  by (induction xs) auto

lemma matching_snoc_no:
  "\<not> (is_file fs item \<and> group_of c pattern item \<noteq> None) \<Longrightarrow>
     matching c fs pattern (pre @ [item]) = matching c fs pattern pre"
  by (simp add: matching_def)

lemma dict_of_snoc_no:
  "\<not> (is_file fs item \<and> group_of c pattern item \<noteq> None) \<Longrightarrow>
     dict_of c fs pattern (pre @ [item]) = dict_of c fs pattern pre"
  by (simp add: dict_of_def group_spec_def matching_snoc_no)

lemma ids_matching:
  "set (List.map_filter (group_of c pattern) (matching c fs pattern pre)) =
     {g. \<exists>item \<in> set (matching c fs pattern pre). group_of c pattern item = Some g}"
  by (force simp: map_filter_def image_iff)

lemma dict_of_snoc_yes:
  assumes f: "is_file fs item" and g: "group_of c pattern item = Some g"
  shows "dict_of c fs pattern (pre @ [item]) =
     (let d = dict_of c fs pattern pre;
          d' = (if map_of d g = None then d @ [(g, \<lparr>fg_name = g, fg_files = []\<rparr>)] else d)
      in case map_of d' g of
           None \<Rightarrow> []
         | Some grp \<Rightarrow> AList.update g (add_file grp (source_file_of fs g item)) d')"
proof -
  let ?M = "matching c fs pattern"
  let ?ids = "\<lambda>xs. List.map_filter (group_of c pattern) (?M xs)"
  let ?F = "group_spec c fs pattern"
  have M: "?M (pre @ [item]) = ?M pre @ [item]"
    using f g by (simp add: matching_def)
  have ids: "?ids (pre @ [item]) = ?ids pre @ [g]"
    using g by (simp add: M map_filter_def)
  have Fg: "?F (pre @ [item]) g = add_file (?F pre g) (source_file_of fs g item)"
    using g by (simp add: group_spec_def M add_file_def)
  have Fk: "\<And>k. k \<noteq> g \<Longrightarrow> ?F (pre @ [item]) k = ?F pre k"
    using g by (simp add: group_spec_def M)
  show ?thesis
  proof (cases "g \<in> set (?ids pre)")
    case True
    then have in_fs: "g \<in> set (first_seen (?ids pre))" by (simp add: set_first_seen)
    have "dict_of c fs pattern (pre @ [item]) =
       map (\<lambda>k. (k, ?F (pre @ [item]) k)) (first_seen (?ids pre))"
      using True by (simp add: dict_of_def ids first_seen_snoc)
    also have "\<dots> = map (\<lambda>k. (k, if k = g then add_file (?F pre g) (source_file_of fs g item)
                                  else ?F pre k)) (first_seen (?ids pre))"
      by (rule map_cong) (auto simp: Fg Fk)
    also have "\<dots> = AList.update g (add_file (?F pre g) (source_file_of fs g item))
                      (dict_of c fs pattern pre)"
      unfolding dict_of_def by (rule update_keyed [OF in_fs distinct_first_seen, symmetric])
    finally show ?thesis
      using in_fs by (simp add: Let_def dict_of_def map_of_keyed)
  next
    case False
    then have notin: "g \<notin> set (first_seen (?ids pre))" by (simp add: set_first_seen)
    have none: "filter (\<lambda>item. group_of c pattern item = Some g) (?M pre) = []"
      using False by (auto simp: filter_empty_conv ids_matching)
    have Fpre: "?F pre g = \<lparr>fg_name = g, fg_files = []\<rparr>"
      by (simp add: group_spec_def none)
    have "dict_of c fs pattern (pre @ [item]) =
       map (\<lambda>k. (k, ?F (pre @ [item]) k)) (first_seen (?ids pre)) @ [(g, ?F (pre @ [item]) g)]"
      using False by (simp add: dict_of_def ids first_seen_snoc)
    also have "map (\<lambda>k. (k, ?F (pre @ [item]) k)) (first_seen (?ids pre)) = dict_of c fs pattern pre"
    proof -
      have "?F (pre @ [item]) k = ?F pre k" if "k \<in> set (first_seen (?ids pre))" for k
      proof -
        from that notin have "k \<noteq> g" by auto
        then show ?thesis by (rule Fk)
      qed
      then show ?thesis unfolding dict_of_def by (intro map_cong) simp_all
    qed
    finally have eq: "dict_of c fs pattern (pre @ [item]) =
        dict_of c fs pattern pre @ [(g, add_file \<lparr>fg_name = g, fg_files = []\<rparr> (source_file_of fs g item))]"
      by (simp add: Fg Fpre)
    have keys: "g \<notin> fst ` set (dict_of c fs pattern pre)"
      using notin by (auto simp: dict_of_def)
    have mo: "map_of (dict_of c fs pattern pre) g = None"
      using notin by (simp add: dict_of_def map_of_keyed)
    have mo': "map_of (dict_of c fs pattern pre @ [(g, \<lparr>fg_name = g, fg_files = []\<rparr>)]) g
                 = Some \<lparr>fg_name = g, fg_files = []\<rparr>"
      using mo by (simp add: map_add_def)
    show ?thesis
      unfolding Let_def mo eq by (simp only: refl if_True mo' option.case update_last [OF keys])
  qed
qed

lemma map_of_ensured:
  "\<exists>grp. map_of (if map_of d g = None then d @ [(g, v)] else d) g = Some grp"
  by (cases "map_of d g") (simp_all add: map_add_def)

lemma extract_group_compiled:
  "re_compile pattern = Inr r \<Longrightarrow>
     extract_group re_compile (pname item) pattern = Inr (group_of re_compile pattern item)"
  by (simp add: extract_group_def group_of_def split: option.splits)

lemma from_path_file:
  "is_file fs item \<Longrightarrow> from_path fs item g = Inr (source_file_of fs g item)"
  by (auto simp: from_path_def source_file_of_def is_file_def stat_size_def
      split: option.splits node.splits)

lemma scan_items_dict:
  assumes c: "re_compile pattern = Inr r"
  shows "scan_items re_compile fs pattern items (dict_of re_compile fs pattern pre) =
           Inr (dict_of re_compile fs pattern (pre @ items))"
proof (induction items arbitrary: pre)
  case Nil
  then show ?case by simp
next
  case (Cons item items)
  from c have ex: "extract_group re_compile (pname item) pattern =
      Inr (group_of re_compile pattern item)"
    by (rule extract_group_compiled)
  show ?case
  proof (cases "is_file fs item \<and> group_of re_compile pattern item \<noteq> None")
    case False
    then have "scan_items re_compile fs pattern (item # items) (dict_of re_compile fs pattern pre) =
        scan_items re_compile fs pattern items (dict_of re_compile fs pattern (pre @ [item]))"
      by (auto simp: ex dict_of_snoc_no)
    also have "\<dots> = Inr (dict_of re_compile fs pattern ((pre @ [item]) @ items))"
      by (rule Cons.IH)
    finally show ?thesis by simp
  next
    case True
    then obtain g where f: "is_file fs item" and g: "group_of re_compile pattern item = Some g"
      by auto
    let ?d = "dict_of re_compile fs pattern pre"
    let ?d' = "if map_of ?d g = None then ?d @ [(g, \<lparr>fg_name = g, fg_files = []\<rparr>)] else ?d"
    obtain grp where grp: "map_of ?d' g = Some grp"
      using map_of_ensured [of ?d g] by blast
    have step: "dict_of re_compile fs pattern (pre @ [item]) =
        AList.update g (add_file grp (source_file_of fs g item)) ?d'"
      using dict_of_snoc_yes [OF f g, of pre] grp by (simp add: Let_def)
    have "scan_items re_compile fs pattern (item # items) ?d =
        scan_items re_compile fs pattern items (AList.update g (add_file grp (source_file_of fs g item)) ?d')"
      using f g grp by (simp add: ex from_path_file Let_def)
    also have "\<dots> = scan_items re_compile fs pattern items (dict_of re_compile fs pattern (pre @ [item]))"
      by (simp only: step)
    also have "\<dots> = Inr (dict_of re_compile fs pattern ((pre @ [item]) @ items))"
      by (rule Cons.IH)
    finally show ?thesis by simp
  qed
qed

lemma dict_of_Nil: "dict_of re_compile fs pattern [] = []"
  by (simp add: dict_of_def matching_def map_filter_def first_seen_def)

text \<open>
  Claim C7. For a directory and a pattern that compiles, \<^verbatim>\<open>scan_and_group\<close> returns what the
  specification says for the direct entries of the directory, in the order in which
  \<^verbatim>\<open>iterdir\<close> yields them: the groups in the order of first appearance of their identifiers,
  each with its matching regular files in scan order; entries that are not regular files
  (subdirectories) and files that the pattern does not match are in no group, and nothing
  below a subdirectory is looked at.
\<close>

theorem scan_and_group_first_seen_order:
  assumes "re_compile pattern = Inr r" and "is_dir fs source_dir"
  shows "scan_and_group re_compile fs source_dir pattern =
           Inr (scan_and_group_spec re_compile fs pattern (children fs source_dir))"
proof -
  let ?items = "children fs source_dir"
  have "scan_items re_compile fs pattern ?items [] = Inr (dict_of re_compile fs pattern ?items)"
    using assms(1) scan_items_dict [of re_compile pattern r fs ?items "[]"]
    by (simp add: dict_of_Nil)
  moreover have "map snd (dict_of re_compile fs pattern ?items) =
      scan_and_group_spec re_compile fs pattern ?items"
    by (simp add: dict_of_def scan_and_group_spec_def comp_def)
  ultimately show ?thesis using assms(2) by (simp add: scan_and_group_def iterdir_def is_dir_def)
qed

theorem scan_and_group_first_seen_order_witness:
  "compile_example trip_pattern = Inr (Seq (literal ''trip'') (Seq digit (Seq digit (Seq digit digit))))
   \<and> is_dir fs_trip [''src'']
   \<and> scan_and_group compile_example fs_trip [''src''] trip_pattern =
       Inr (scan_and_group_spec compile_example fs_trip trip_pattern (children fs_trip [''src'']))
   \<and> scan_and_group_spec compile_example fs_trip trip_pattern (children fs_trip [''src'']) =
       [\<lparr>fg_name = ''trip2004'',
         fg_files = [\<lparr>sf_path = [''src'', ''trip2004_01.jpg''], sf_name = ''trip2004_01.jpg'',
                      sf_size = 1, sf_group = ''trip2004''\<rparr>,
                     \<lparr>sf_path = [''src'', ''trip2004_02.jpg''], sf_name = ''trip2004_02.jpg'',
                      sf_size = 3, sf_group = ''trip2004''\<rparr>]\<rparr>,
        \<lparr>fg_name = ''trip2005'',
         fg_files = [\<lparr>sf_path = [''src'', ''trip2005_01.jpg''], sf_name = ''trip2005_01.jpg'',
                      sf_size = 2, sf_group = ''trip2005''\<rparr>]\<rparr>]"
proof -
  have c: "compile_example trip_pattern =
      Inr (Seq (literal ''trip'') (Seq digit (Seq digit (Seq digit digit))))"
    by (simp add: compile_example_def)
  have d: "is_dir fs_trip [''src'']"
    by code_simp
  have v: "scan_and_group_spec compile_example fs_trip trip_pattern (children fs_trip [''src'']) =
       [\<lparr>fg_name = ''trip2004'',
         fg_files = [\<lparr>sf_path = [''src'', ''trip2004_01.jpg''], sf_name = ''trip2004_01.jpg'',
                      sf_size = 1, sf_group = ''trip2004''\<rparr>,
                     \<lparr>sf_path = [''src'', ''trip2004_02.jpg''], sf_name = ''trip2004_02.jpg'',
                      sf_size = 3, sf_group = ''trip2004''\<rparr>]\<rparr>,
        \<lparr>fg_name = ''trip2005'',
         fg_files = [\<lparr>sf_path = [''src'', ''trip2005_01.jpg''], sf_name = ''trip2005_01.jpg'',
                      sf_size = 2, sf_group = ''trip2005''\<rparr>]\<rparr>]"
    by code_simp
  from scan_and_group_first_seen_order
      [of compile_example trip_pattern "Seq (literal ''trip'') (Seq digit (Seq digit (Seq digit digit)))"
          fs_trip "[''src'']"] c d v
  show ?thesis by simp
qed

section \<open>Creating an archive\<close>

lemma keys_put:
  "map fst (put fs p n) = (if p \<in> set (map fst fs) then map fst fs else map fst fs @ [p])"
  by (simp add: put_def update_keys)

lemma children_keys: "children fs d = filter (\<lambda>p. p \<noteq> [] \<and> butlast p = d) (map fst fs)"
  by (simp add: children_def filter_map comp_def)

lemma lookup_key: "lookup fs p = Some n \<Longrightarrow> p \<noteq> [] \<Longrightarrow> p \<in> set (map fst fs)"
  by (force simp: lookup_def dest!: map_of_SomeD)

lemma lookup_None_key: "lookup fs p = None \<Longrightarrow> p \<notin> set (map fst fs)"
  by (auto simp: lookup_def map_of_eq_None_iff split: if_splits)

lemma children_put_existing:
  "lookup fs p = Some n' \<Longrightarrow> p \<noteq> [] \<Longrightarrow> children (put fs p n) d = children fs d"
  using lookup_key [of fs p n'] by (simp add: children_keys keys_put)

lemma children_put_elsewhere:
  "parent p \<noteq> d \<Longrightarrow> children (put fs p n) d = children fs d"
  by (auto simp: children_keys keys_put parent_def)

lemma is_file_put:
  "p \<noteq> [] \<Longrightarrow> is_file (put fs p n) q = (if q = p then (n \<noteq> Dir) else is_file fs q)"
  by (cases n) (simp_all add: is_file_def lookup_put)

lemma file_data_put:
  "p \<noteq> [] \<Longrightarrow> q \<noteq> p \<Longrightarrow> file_data (put fs p n) q = file_data fs q"
  by (simp add: file_data_def lookup_put)

lemma add_items_members:
  "add_items fs items acc = (members, None) \<Longrightarrow>
     members = acc @ map (\<lambda>p. (pname p, file_data fs p)) (filter (is_file fs) items)"
proof (induction items arbitrary: acc)
  case Nil
  then show ?case by simp
next
  case (Cons item items)
  show ?case
  proof (cases "is_file fs item")
    case False
    with Cons show ?thesis by simp
  next
    case True
    then obtain d r where l: "lookup fs item = Some (File d r)"
      by (auto simp: is_file_def split: option.splits node.splits)
    with Cons.prems True have r: "r"
      by (auto simp: zip_write_def split: if_splits)
    with l Cons.prems True have "add_items fs items (acc @ [(pname item, d)]) = (members, None)"
      by (simp add: zip_write_def)
    from Cons.IH [OF this] l True show ?thesis by (simp add: file_data_def)
  qed
qed

lemma zip_open_result:
  assumes "zip_open fs z = Inr fs1"
  shows "z \<noteq> [] \<and> (\<exists>r. fs1 = put fs z (File (Archive []) r))"
  using assms by (auto simp: zip_open_def lookup_def split: option.splits node.splits if_splits)

lemma create_zip_success:
  assumes "create_zip fs folder z = (fs', None)"
  shows "\<exists>fs1 r members. zip_open fs z = Inr fs1 \<and> z \<noteq> [] \<and> fs1 = put fs z (File (Archive []) r)
           \<and> is_dir fs1 folder
           \<and> members = map (\<lambda>p. (pname p, file_data fs1 p)) (filter (is_file fs1) (children fs1 folder))
           \<and> fs' = put fs1 z (File (Archive members) r)"
proof -
  from assms obtain fs1 where o: "zip_open fs z = Inr fs1"
    by (auto simp: create_zip_def split: if_splits sum.splits)
  from zip_open_result [OF o] obtain r where z: "z \<noteq> []" and fs1: "fs1 = put fs z (File (Archive []) r)"
    by blast
  from assms o obtain members where a: "add_folder_to_zip fs1 folder [] = (members, None)"
    and f: "fs' = zip_close fs1 z members"
    by (auto simp: create_zip_def split: if_splits prod.splits)
  from a have d: "is_dir fs1 folder" and ai: "add_items fs1 (children fs1 folder) [] = (members, None)"
    by (auto simp: add_folder_to_zip_def iterdir_def is_dir_def split: option.splits node.splits)
  from add_items_members [OF ai]
  have m: "members = map (\<lambda>p. (pname p, file_data fs1 p)) (filter (is_file fs1) (children fs1 folder))"
    by simp
  from fs1 z have "lookup fs1 z = Some (File (Archive []) r)" by (simp add: lookup_put)
  with f have "fs' = put fs1 z (File (Archive members) r)" by (simp add: zip_close_def)
  with o z fs1 d m show ?thesis by blast
qed

lemma in_children: "p \<in> set (children fs d) \<Longrightarrow> p \<noteq> [] \<and> parent p = d"
  by (auto simp: children_keys parent_def)

text \<open>
  Claim C8. \<^verbatim>\<open>create_zip\<close> raises \<^verbatim>\<open>FileNotFoundError\<close> when the folder does not exist and
  leaves the file system as it is. When it returns without raising, the archive file holds
  one member for each regular file directly in the folder, in the order of the listing, under
  the file's base name, and no member for a subdirectory or anything below one; when the
  archive is not written into the folder itself, these are the regular files the folder held
  before the call, each with its data. For an empty folder it returns and the archive has no
  member.
\<close>

theorem create_zip_flat_entries:
  "(\<not> exists fs folder_path \<longrightarrow> create_zip fs folder_path zip_path = (fs, Some FileNotFoundError))
   \<and> (create_zip fs folder_path zip_path = (fs', None) \<longrightarrow>
        (\<exists>members r. lookup fs' zip_path = Some (File (Archive members) r)
           \<and> map fst members = map pname (filter (is_file fs') (children fs' folder_path))
           \<and> (parent zip_path \<noteq> folder_path \<longrightarrow>
                members = map (\<lambda>p. (pname p, file_data fs p))
                            (filter (is_file fs) (children fs folder_path)))))
   \<and> (is_dir fs folder_path \<and> children fs folder_path = [] \<and> is_dir fs (parent zip_path)
        \<and> parent zip_path \<noteq> folder_path \<and> zip_path \<noteq> [] \<and> \<not> exists fs zip_path
        \<longrightarrow> create_zip fs folder_path zip_path = (put fs zip_path (File (Archive []) True), None))"
proof (intro conjI impI)
  assume "\<not> exists fs folder_path"
  then show "create_zip fs folder_path zip_path = (fs, Some FileNotFoundError)"
    by (simp add: create_zip_def)
next
  assume "create_zip fs folder_path zip_path = (fs', None)"
  from create_zip_success [OF this] obtain fs1 r members where
    z: "zip_path \<noteq> []" and fs1: "fs1 = put fs zip_path (File (Archive []) r)"
    and m: "members = map (\<lambda>p. (pname p, file_data fs1 p))
                        (filter (is_file fs1) (children fs1 folder_path))"
    and fs': "fs' = put fs1 zip_path (File (Archive members) r)"
    by blast
  from fs1 z have l1: "lookup fs1 zip_path = Some (File (Archive []) r)"
    by (simp add: lookup_put)
  from fs' z have l': "lookup fs' zip_path = Some (File (Archive members) r)"
    by (simp add: lookup_put)
  have c: "children fs' folder_path = children fs1 folder_path"
    unfolding fs' by (rule children_put_existing [OF l1 z])
  have f: "is_file fs' q = is_file fs1 q" for q
    using z l1 by (simp add: fs' is_file_put) (simp add: is_file_def)
  have f': "is_file fs' = is_file fs1"
    by (rule ext) (rule f)
  have names: "map fst members = map pname (filter (is_file fs') (children fs' folder_path))"
    by (simp add: m c f' comp_def)
  have outside: "members = map (\<lambda>p. (pname p, file_data fs p))
                            (filter (is_file fs) (children fs folder_path))"
    if out: "parent zip_path \<noteq> folder_path"
  proof -
    have c1: "children fs1 folder_path = children fs folder_path"
      unfolding fs1 by (rule children_put_elsewhere [OF out])
    have ne: "p \<noteq> zip_path" if "p \<in> set (children fs folder_path)" for p
      using in_children [OF that] out by auto
    have "filter (is_file fs1) (children fs folder_path) = filter (is_file fs) (children fs folder_path)"
      by (rule filter_cong [OF refl]) (simp add: fs1 is_file_put z ne)
    moreover have "map (\<lambda>p. (pname p, file_data fs1 p)) (filter (is_file fs) (children fs folder_path))
        = map (\<lambda>p. (pname p, file_data fs p)) (filter (is_file fs) (children fs folder_path))"
      by (rule map_cong [OF refl]) (simp add: fs1 file_data_put z ne)
    ultimately show ?thesis by (simp add: m c1)
  qed
  from l' names outside
  show "\<exists>members r. lookup fs' zip_path = Some (File (Archive members) r)
           \<and> map fst members = map pname (filter (is_file fs') (children fs' folder_path))
           \<and> (parent zip_path \<noteq> folder_path \<longrightarrow>
                members = map (\<lambda>p. (pname p, file_data fs p))
                            (filter (is_file fs) (children fs folder_path)))"
    by blast
next
  assume a: "is_dir fs folder_path \<and> children fs folder_path = [] \<and> is_dir fs (parent zip_path)
        \<and> parent zip_path \<noteq> folder_path \<and> zip_path \<noteq> [] \<and> \<not> exists fs zip_path"
  let ?fs1 = "put fs zip_path (File (Archive []) True)"
  from a have o: "zip_open fs zip_path = Inr ?fs1"
    by (simp add: zip_open_def exists_def is_dir_def)
  from a have c: "children ?fs1 folder_path = []"
    by (simp add: children_put_elsewhere)
  from a have "folder_path \<noteq> zip_path" by (auto simp: exists_def is_dir_def)
  with a have d: "lookup ?fs1 folder_path = Some Dir"
    by (simp add: lookup_put is_dir_def)
  from a have l: "lookup ?fs1 zip_path = Some (File (Archive []) True)"
    by (simp add: lookup_put)
  have e: "exists fs folder_path" using a by (simp add: exists_def is_dir_def)
  have "put ?fs1 zip_path (File (Archive []) True) = ?fs1"
    by (simp add: put_def)
  with e o c d l show "create_zip fs folder_path zip_path = (?fs1, None)"
    by (simp add: create_zip_def add_folder_to_zip_def iterdir_def zip_close_def)
qed


theorem create_zip_flat_entries_witness:
  "\<not> exists fs_zip [''out'', ''nowhere'']
   \<and> create_zip fs_zip [''out'', ''nowhere''] [''out'', ''nowhere.zip''] = (fs_zip, Some FileNotFoundError)
   \<and> create_zip fs_zip [''out'', ''vacation''] [''out'', ''vacation.zip''] = (fs_zip_after, None)
   \<and> (\<exists>members r. lookup fs_zip_after [''out'', ''vacation.zip''] = Some (File (Archive members) r)
          \<and> map fst members = [''vacation_beach.jpg'', ''vacation_sunset.jpg'']
          \<and> members = map (\<lambda>p. (pname p, file_data fs_zip p))
                 (filter (is_file fs_zip) (children fs_zip [''out'', ''vacation''])))
   \<and> children fs_zip [''out'', ''empty''] = []
   \<and> create_zip fs_zip [''out'', ''empty''] [''out'', ''empty.zip''] =
       (put fs_zip [''out'', ''empty.zip''] (File (Archive []) True), None)"
proof -
  have h1: "\<not> exists fs_zip [''out'', ''nowhere'']"
    by code_simp
  have h2: "create_zip fs_zip [''out'', ''vacation''] [''out'', ''vacation.zip''] = (fs_zip_after, None)"
    by code_simp
  have n2: "map pname (filter (is_file fs_zip_after) (children fs_zip_after [''out'', ''vacation'']))
      = [''vacation_beach.jpg'', ''vacation_sunset.jpg'']"
    by code_simp
  have p2: "parent [''out'', ''vacation.zip''] \<noteq> [''out'', ''vacation'']"
    by (simp add: parent_def)
  have h3: "is_dir fs_zip [''out'', ''empty''] \<and> children fs_zip [''out'', ''empty''] = []
      \<and> is_dir fs_zip (parent [''out'', ''empty.zip''])
      \<and> parent [''out'', ''empty.zip''] \<noteq> [''out'', ''empty''] \<and> [''out'', ''empty.zip''] \<noteq> []
      \<and> \<not> exists fs_zip [''out'', ''empty.zip'']"
    by code_simp
  note t1 = create_zip_flat_entries
      [of fs_zip "[''out'', ''nowhere'']" "[''out'', ''nowhere.zip'']" fs_zip]
  note t2 = create_zip_flat_entries
      [of fs_zip "[''out'', ''vacation'']" "[''out'', ''vacation.zip'']" fs_zip_after]
  note t3 = create_zip_flat_entries
      [of fs_zip "[''out'', ''empty'']" "[''out'', ''empty.zip'']" fs_zip]
  from t1 h1 have c1: "create_zip fs_zip [''out'', ''nowhere''] [''out'', ''nowhere.zip'']
      = (fs_zip, Some FileNotFoundError)" by blast
  from t2 h2 p2 n2 have c2: "\<exists>members r.
      lookup fs_zip_after [''out'', ''vacation.zip''] = Some (File (Archive members) r)
      \<and> map fst members = [''vacation_beach.jpg'', ''vacation_sunset.jpg'']
      \<and> members = map (\<lambda>p. (pname p, file_data fs_zip p))
            (filter (is_file fs_zip) (children fs_zip [''out'', ''vacation'']))"
    by (metis (no_types, lifting))
  from t3 h3 have c3: "create_zip fs_zip [''out'', ''empty''] [''out'', ''empty.zip''] =
       (put fs_zip [''out'', ''empty.zip''] (File (Archive []) True), None)" by blast
  from h1 c1 h2 c2 h3 c3 show ?thesis by blast
qed

section \<open>Name collisions\<close>

text \<open>
  Claim C5. When something already exists at the target path of a file, \<^verbatim>\<open>handle_merge\<close>
  decides to skip, whatever the source and the target hold (neither is read), and the loop
  body of \<open>main\<close> does nothing but log the file as a skipped duplicate and count it: the
  file system after the step is the one before it, so the existing target keeps its data.
  This holds in every mode of the run.
\<close>

theorem existing_target_is_skipped:
  assumes "exists (st_fs st) (pjoin group_folder (sf_name source_file))"
  shows "handle_merge (st_fs st) (pjoin group_folder (sf_name source_file)) = (False, ''skip'')
         \<and> process_file io a group_folder st source_file =
             Continue (log ''INFO'' (''Skipping duplicate: '' @ sf_name source_file) st
                         \<lparr>files_skipped := files_skipped st + 1\<rparr>)
         \<and> st_fs (log ''INFO'' (''Skipping duplicate: '' @ sf_name source_file) st
                         \<lparr>files_skipped := files_skipped st + 1\<rparr>) = st_fs st"
  using assms by (simp add: handle_merge_def process_file_def log_def)


theorem existing_target_is_skipped_witness:
  "exists (st_fs (initial_state fs_merge)) (pjoin [''out'', ''merge'']
       (sf_name \<lparr>sf_path = [''src'', ''merge_a.jpg''], sf_name = ''merge_a.jpg'', sf_size = 9,
                 sf_group = ''merge''\<rparr>))
   \<and> process_file no_faults args_merge [''out'', ''merge''] (initial_state fs_merge)
        \<lparr>sf_path = [''src'', ''merge_a.jpg''], sf_name = ''merge_a.jpg'', sf_size = 9,
         sf_group = ''merge''\<rparr> =
       Continue ((initial_state fs_merge)
                  \<lparr>st_records := [(''INFO'', ''Skipping duplicate: merge_a.jpg'')],
                   files_skipped := 1\<rparr>)
   \<and> fst (main compile_example no_faults (Arguments args_merge) fs_merge) = 0
   \<and> lookup (st_fs (snd (main compile_example no_faults (Arguments args_merge) fs_merge))) [''out'', ''merge'', ''merge_a.jpg'']
       = Some (File (Raw ''1'') True)
   \<and> files_skipped (snd (main compile_example no_faults (Arguments args_merge) fs_merge)) = 1
   \<and> files_copied (snd (main compile_example no_faults (Arguments args_merge) fs_merge)) = 0"
proof -
  let ?sf = "\<lparr>sf_path = [''src'', ''merge_a.jpg''], sf_name = ''merge_a.jpg'', sf_size = 9,
              sf_group = ''merge''\<rparr>"
  have h: "exists (st_fs (initial_state fs_merge)) (pjoin [''out'', ''merge''] (sf_name ?sf))"
    by code_simp
  from existing_target_is_skipped [OF h, of no_faults args_merge]
  have p: "process_file no_faults args_merge [''out'', ''merge''] (initial_state fs_merge) ?sf =
       Continue ((initial_state fs_merge)
                  \<lparr>st_records := [(''INFO'', ''Skipping duplicate: merge_a.jpg'')],
                   files_skipped := 1\<rparr>)"
    by (simp add: log_def initial_state_def)
  have m: "fst (main compile_example no_faults (Arguments args_merge) fs_merge) = 0
     \<and> lookup (st_fs (snd (main compile_example no_faults (Arguments args_merge) fs_merge))) [''out'', ''merge'', ''merge_a.jpg'']
         = Some (File (Raw ''1'') True)
     \<and> files_skipped (snd (main compile_example no_faults (Arguments args_merge) fs_merge)) = 1
     \<and> files_copied (snd (main compile_example no_faults (Arguments args_merge) fs_merge)) = 0"
    by code_simp
  from h p m show ?thesis by blast
qed

section \<open>The structure of a run\<close>

lemma process_group_unfold:
  "process_group io a st grp =
     (case prepare_folder a (pjoin (a_output a) (fg_name grp)) (group_start st grp) of
        Inl e \<Rightarrow> Raise e (group_start st grp)
      | Inr st1 \<Rightarrow>
          (case process_files io a (pjoin (a_output a) (fg_name grp)) st1 (fg_files grp) of
             Continue st2 \<Rightarrow> archive_group a (fg_name grp) (pjoin (a_output a) (fg_name grp)) st2
           | Return code st2 \<Rightarrow> Return code st2
           | Raise e st2 \<Rightarrow> Raise e st2))"
  unfolding process_group_def Let_def group_start_def by (rule refl)

lemma group_start_fields:
  "st_fs (group_start st grp) = st_fs st" "files_copied (group_start st grp) = files_copied st"
  "files_skipped (group_start st grp) = files_skipped st"
  "files_deleted (group_start st grp) = files_deleted st"
  by (simp_all add: group_start_def log_def)

lemma main_validation_error:
  assumes "validation_error re_compile a fs"
  shows "\<exists>msg. main re_compile io (Arguments a) fs = (1, (initial_state fs)\<lparr>st_stderr := [msg]\<rparr>)"
proof (cases "validate_arguments a")
  case (Some msg)
  then have "main re_compile io (Arguments a) fs = (1, (initial_state fs)\<lparr>st_stderr := [msg]\<rparr>)"
    by (simp add: main_def)
  then show ?thesis by (rule exI)
next
  case None
  show ?thesis
  proof (cases "exists fs (a_source a)")
    case False
    with None have "main re_compile io (Arguments a) fs = (1, (initial_state fs)
        \<lparr>st_stderr := [''Error: Source directory does not exist: '' @ join_path (a_source a)]\<rparr>)"
      by (simp add: main_def)
    then show ?thesis by (rule exI)
  next
    case ex: True
    show ?thesis
    proof (cases "is_dir fs (a_source a)")
      case False
      with None ex have "main re_compile io (Arguments a) fs = (1, (initial_state fs)
          \<lparr>st_stderr := [''Error: Source path is not a directory: '' @ join_path (a_source a)]\<rparr>)"
        by (simp add: main_def)
      then show ?thesis by (rule exI)
    next
      case True
      with None ex assms obtain msg where "validate_pattern re_compile (a_pattern a) = Inl msg"
        by (auto simp: validation_error_def isl_def)
      with None ex True
      have "main re_compile io (Arguments a) fs = (1, (initial_state fs)\<lparr>st_stderr := [''Error: '' @ msg]\<rparr>)"
        by (simp add: main_def)
      then show ?thesis by (rule exI)
    qed
  qed
qed

lemma main_valid:
  assumes "\<not> validation_error re_compile a fs"
  shows "main re_compile io (Arguments a) fs =
           organize re_compile io a
             ((initial_state fs)\<lparr>st_fs := fst (setup_logging fs (a_output a) (a_log_level a)),
                st_records := snd (snd (setup_logging fs (a_output a) (a_log_level a)))\<rparr>)"
proof -
  from assms have v: "validate_arguments a = None" "exists fs (a_source a)" "is_dir fs (a_source a)"
    by (simp_all add: validation_error_def)
  from assms obtain ok where p: "validate_pattern re_compile (a_pattern a) = Inr ok"
    by (cases "validate_pattern re_compile (a_pattern a)") (simp_all add: validation_error_def)
  obtain fs1 lg recs where l: "setup_logging fs (a_output a) (a_log_level a) = (fs1, lg, recs)"
    by (cases "setup_logging fs (a_output a) (a_log_level a)") auto
  from v p l show ?thesis by (simp add: main_def)
qed

section \<open>Preview mode\<close>

lemma process_file_dry:
  assumes "a_dry_run a"
  shows "\<exists>st'. process_file io a folder st sf = Continue st' \<and> st_fs st' = st_fs st
           \<and> files_copied st' = files_copied st \<and> files_deleted st' = files_deleted st"
  using assms by (simp add: process_file_def Let_def log_def)

lemma process_files_dry:
  assumes "a_dry_run a"
  shows "\<exists>st'. process_files io a folder st sfs = Continue st' \<and> st_fs st' = st_fs st
           \<and> files_copied st' = files_copied st \<and> files_deleted st' = files_deleted st"
proof (induction sfs arbitrary: st)
  case Nil
  then show ?case by simp
next
  case (Cons sf sfs)
  from process_file_dry [OF assms, of io folder st sf] obtain st1 where
    1: "process_file io a folder st sf = Continue st1" "st_fs st1 = st_fs st"
       "files_copied st1 = files_copied st" "files_deleted st1 = files_deleted st" by blast
  from Cons.IH [of st1] obtain st2 where
    2: "process_files io a folder st1 sfs = Continue st2" "st_fs st2 = st_fs st1"
       "files_copied st2 = files_copied st1" "files_deleted st2 = files_deleted st1" by blast
  from 1 2 show ?case by simp
qed

lemma archive_group_dry:
  assumes "a_dry_run a"
  shows "\<exists>st'. archive_group a name folder st = Continue st' \<and> st_fs st' = st_fs st
           \<and> files_copied st' = files_copied st \<and> files_deleted st' = files_deleted st"
  using assms by (simp add: archive_group_def Let_def log_def)

lemma process_group_dry:
  assumes "a_dry_run a"
  shows "\<exists>st'. process_group io a st grp = Continue st' \<and> st_fs st' = st_fs st
           \<and> files_copied st' = files_copied st \<and> files_deleted st' = files_deleted st"
proof -
  let ?folder = "pjoin (a_output a) (fg_name grp)"
  let ?st1 = "log ''INFO'' (''[DRY RUN] Would create folder: '' @ join_path ?folder) (group_start st grp)"
  have p: "prepare_folder a ?folder (group_start st grp) = Inr ?st1"
    using assms by (simp add: prepare_folder_def)
  have f1: "st_fs ?st1 = st_fs st" "files_copied ?st1 = files_copied st"
    "files_deleted ?st1 = files_deleted st"
    by (simp_all add: log_def group_start_fields)
  from process_files_dry [OF assms, of io ?folder ?st1 "fg_files grp"] obtain st2 where
    2: "process_files io a ?folder ?st1 (fg_files grp) = Continue st2" "st_fs st2 = st_fs ?st1"
       "files_copied st2 = files_copied ?st1" "files_deleted st2 = files_deleted ?st1" by blast
  from archive_group_dry [OF assms, of "fg_name grp" ?folder st2] obtain st3 where
    3: "archive_group a (fg_name grp) ?folder st2 = Continue st3" "st_fs st3 = st_fs st2"
       "files_copied st3 = files_copied st2" "files_deleted st3 = files_deleted st2" by blast
  from p 2(1) 3(1) have "process_group io a st grp = Continue st3"
    by (simp add: process_group_unfold)
  with 2 3 f1 show ?thesis by simp
qed

lemma process_groups_dry:
  assumes "a_dry_run a"
  shows "\<exists>st'. process_groups io a st grps = Continue st' \<and> st_fs st' = st_fs st
           \<and> files_copied st' = files_copied st \<and> files_deleted st' = files_deleted st"
proof (induction grps arbitrary: st)
  case Nil
  then show ?case by simp
next
  case (Cons grp grps)
  from process_group_dry [OF assms, of io st grp] obtain st1 where
    1: "process_group io a st grp = Continue st1" "st_fs st1 = st_fs st"
       "files_copied st1 = files_copied st" "files_deleted st1 = files_deleted st" by blast
  from Cons.IH [of st1] obtain st2 where
    2: "process_groups io a st1 grps = Continue st2" "st_fs st2 = st_fs st1"
       "files_copied st2 = files_copied st1" "files_deleted st2 = files_deleted st1" by blast
  from 1 2 show ?case by simp
qed

lemma organize_dry:
  assumes "a_dry_run a"
  shows "st_fs (snd (organize re_compile io a st)) = st_fs st
         \<and> files_copied (snd (organize re_compile io a st)) = files_copied st
         \<and> files_deleted (snd (organize re_compile io a st)) = files_deleted st"
proof -
  let ?st5 = "log ''INFO'' ''Scanning source directory...''
               (log ''INFO'' (''Output: '' @ join_path (a_output a))
                 (log ''INFO'' (''Pattern: '' @ a_pattern a)
                   (log ''INFO'' (''Source: '' @ join_path (a_source a))
                     (log ''INFO'' ''[DRY RUN] Starting organization (no changes will be made)'' st))))"
  have fs5: "st_fs ?st5 = st_fs st" "files_copied ?st5 = files_copied st"
    "files_deleted ?st5 = files_deleted st" by (simp_all add: log_def)
  show ?thesis
  proof (cases "scan_and_group re_compile (st_fs st) (a_source a) (a_pattern a)")
    case (Inl e)
    with assms show ?thesis by (simp add: organize_def Let_def log_def unexpected_def)
  next
    case (Inr groups)
    show ?thesis
    proof (cases "groups = []")
      case True
      with Inr assms show ?thesis by (simp add: organize_def Let_def log_def)
    next
      case False
      let ?st6 = "log ''INFO'' (''Found '' @ str_nat (length groups) @ '' group(s)'') ?st5"
      from process_groups_dry [OF assms, of io ?st6 groups] obtain st7 where
        7: "process_groups io a ?st6 groups = Continue st7" "st_fs st7 = st_fs ?st6"
           "files_copied st7 = files_copied ?st6" "files_deleted st7 = files_deleted ?st6" by blast
      have "st_fs ?st6 = st_fs st" "files_copied ?st6 = files_copied st"
        "files_deleted ?st6 = files_deleted st" by (simp_all add: log_def)
      with 7 have 8: "st_fs st7 = st_fs st" "files_copied st7 = files_copied st"
        "files_deleted st7 = files_deleted st" by simp_all
      have sc: "scan_and_group re_compile (st_fs ?st5) (a_source a) (a_pattern a) = Inr groups"
        using Inr by (simp add: log_def)
      from assms False sc 7(1) 8 show ?thesis
        by (simp add: organize_def Let_def log_def)
    qed
  qed
qed

lemma only_adds_refl: "only_adds fs fs allowed"
  by (auto simp: only_adds_def exists_def)

lemma only_adds_trans:
  assumes "only_adds fs fs1 allowed" and "only_adds fs1 fs2 allowed"
  shows "only_adds fs fs2 allowed"
  unfolding only_adds_def
proof (intro conjI allI impI)
  fix q assume e: "exists fs q"
  with assms(1) have 1: "lookup fs1 q = lookup fs q" by (simp add: only_adds_def)
  with e have "exists fs1 q" by (simp add: exists_def)
  with assms(2) have "lookup fs2 q = lookup fs1 q" by (simp add: only_adds_def)
  with 1 show "lookup fs2 q = lookup fs q" by simp
next
  fix q n assume a: "lookup fs2 q = Some n \<and> \<not> exists fs q"
  show "allowed q n"
  proof (cases "exists fs1 q")
    case True
    with assms(2) a have "lookup fs1 q = Some n" by (simp add: only_adds_def)
    with assms(1) a show ?thesis unfolding only_adds_def by blast
  next
    case False
    with assms(2) a show ?thesis unfolding only_adds_def by blast
  qed
qed

lemma only_adds_put:
  assumes "\<not> exists fs p" and "p \<noteq> []" and "allowed p n"
  shows "only_adds fs (put fs p n) allowed"
  using assms by (auto simp: only_adds_def lookup_put exists_def)

lemma only_adds_mono:
  "only_adds fs fs' allowed \<Longrightarrow> (\<And>q n. allowed q n \<Longrightarrow> allowed' q n) \<Longrightarrow> only_adds fs fs' allowed'"
  unfolding only_adds_def by blast

lemma take_butlast_prefix: "take (length q) (butlast p) = q \<Longrightarrow> take (length q) p = q"
proof (cases "p = []")
  case True
  then show "take (length q) (butlast p) = q \<Longrightarrow> take (length q) p = q" by simp
next
  case False
  assume a: "take (length q) (butlast p) = q"
  have "length (take (length q) (butlast p)) = min (length q) (length (butlast p))"
    by simp
  with a have "length q \<le> length (butlast p)" by simp
  moreover from False have "length (butlast p) < length p" by simp
  ultimately have "length q < length p" by linarith
  then have "take (length q) (butlast p) = take (length q) p"
    by (rule take_butlast)
  with a show "take (length q) p = q" by simp
qed

lemma mkdir_parents_unfold:
  "mkdir_parents fs p =
     (case lookup fs p of
        Some Dir \<Rightarrow> Inr fs
      | Some (File d r) \<Rightarrow> Inl FileExistsError
      | None \<Rightarrow>
          (case lookup fs (parent p) of
             Some Dir \<Rightarrow> Inr (put fs p Dir)
           | Some (File d r) \<Rightarrow> Inl NotADirectoryError
           | None \<Rightarrow>
               (case mkdir_parents fs (parent p) of
                  Inl e \<Rightarrow> Inl e
                | Inr fs' \<Rightarrow> Inr (put fs' p Dir))))"
  by (rule mkdir_parents.simps)

lemma mkdir_parents_adds:
  "mkdir_parents fs p = Inr fs' \<Longrightarrow>
     only_adds fs fs' (\<lambda>q n. n = Dir \<and> take (length q) p = q)"
proof (induction fs p arbitrary: fs' rule: mkdir_parents.induct)
  case (1 fs p)
  note u = mkdir_parents_unfold [of fs p]
  show ?case
  proof (cases "lookup fs p")
    case (Some n)
    with "1.prems" u have "fs' = fs"
      by (cases n) simp_all
    then show ?thesis by (simp add: only_adds_refl)
  next
    case None
    then have ne: "p \<noteq> []" and nex: "\<not> exists fs p" by (auto simp: lookup_def exists_def)
    show ?thesis
    proof (cases "lookup fs (parent p)")
      case (Some n)
      with None "1.prems" u have "fs' = put fs p Dir"
        by (cases n) simp_all
      with nex ne show ?thesis by (simp add: only_adds_put)
    next
      case None': None
      from u None None' "1.prems"
      have c: "(case mkdir_parents fs (parent p) of Inl e \<Rightarrow> Inl e
                | Inr fs1 \<Rightarrow> Inr (put fs1 p Dir)) = Inr fs'"
        by simp
      then obtain fs1 where m: "mkdir_parents fs (parent p) = Inr fs1"
        and f: "fs' = put fs1 p Dir"
        by (cases "mkdir_parents fs (parent p)") simp_all
      from "1.IH" [OF None None' m]
      have a1': "only_adds fs fs1 (\<lambda>q n. n = Dir \<and> take (length q) (parent p) = q)" .
      then have a1: "only_adds fs fs1 (\<lambda>q n. n = Dir \<and> take (length q) p = q)"
      proof (rule only_adds_mono)
        fix q n assume "n = Dir \<and> take (length q) (parent p) = q"
        then show "n = Dir \<and> take (length q) p = q"
          using take_butlast_prefix [of q p] by (simp add: parent_def)
      qed
      have "lookup fs1 p = None"
      proof (rule ccontr)
        assume "lookup fs1 p \<noteq> None"
        then obtain n where "lookup fs1 p = Some n" by blast
        with a1' nex have "take (length p) (parent p) = p"
          unfolding only_adds_def by blast
        then have "length (take (length p) (butlast p)) = length p"
          by (simp add: parent_def)
        with ne show False by (cases p rule: rev_cases) auto
      qed
      then have "\<not> exists fs1 p" by (simp add: exists_def)
      then have a2: "only_adds fs1 fs' (\<lambda>q n. n = Dir \<and> take (length q) p = q)"
        unfolding f using ne by (intro only_adds_put) simp_all
      from a1 a2 show ?thesis by (rule only_adds_trans)
    qed
  qed
qed

lemma open_append_adds:
  assumes "open_append fs p = Inr fs'"
  shows "only_adds fs fs' (\<lambda>q n. q = p \<and> n = File (Raw []) True)"
proof (cases "lookup fs p")
  case (Some n)
  with assms have "fs' = fs" by (cases n) (simp_all add: open_append_def)
  then show ?thesis by (simp add: only_adds_refl)
next
  case None
  then have ne: "p \<noteq> []" and nex: "\<not> exists fs p" by (auto simp: lookup_def exists_def)
  from assms None have "fs' = put fs p (File (Raw []) True)"
    by (simp add: open_append_def split: option.splits node.splits)
  with ne nex show ?thesis by (simp add: only_adds_put)
qed

lemma setup_logging_adds:
  "only_adds fs (fst (setup_logging fs output_dir log_level)) (logger_entry output_dir)"
proof (cases "mkdir_parents fs output_dir")
  case (Inl e)
  then show ?thesis by (simp add: setup_logging_def only_adds_refl)
next
  case (Inr fs1)
  from mkdir_parents_adds [OF Inr]
  have a1: "only_adds fs fs1 (logger_entry output_dir)"
    by (rule only_adds_mono) (simp add: logger_entry_def)
  show ?thesis
  proof (cases "open_append fs1 (pjoin output_dir ''photozipper.log'')")
    case (Inl e)
    with Inr a1 show ?thesis by (simp add: setup_logging_def)
  next
    case Inr': (Inr fs2)
    from open_append_adds [OF Inr']
    have "only_adds fs1 fs2 (logger_entry output_dir)"
      by (rule only_adds_mono) (simp add: logger_entry_def)
    with a1 have "only_adds fs fs2 (logger_entry output_dir)" by (rule only_adds_trans)
    with Inr Inr' show ?thesis by (simp add: setup_logging_def)
  qed
qed

lemma lookup_without:
  "p \<noteq> [] \<Longrightarrow> lookup (without fs p) q = (if q = p then None else lookup fs q)"
  by (simp add: lookup_def without_def delete_conv)

lemma only_adds_without:
  assumes "only_adds fs fs' (logger_entry output_dir)"
  shows "only_adds (without fs (pjoin output_dir ''photozipper.log''))
           (without fs' (pjoin output_dir ''photozipper.log'')) (output_ancestor output_dir)"
proof -
  let ?lp = "pjoin output_dir ''photozipper.log''"
  have ne: "?lp \<noteq> []" by (simp add: pjoin_def)
  note lw = lookup_without [OF ne]
  from assms have 1: "\<And>q. exists fs q \<Longrightarrow> lookup fs' q = lookup fs q"
    and 2: "\<And>q n. lookup fs' q = Some n \<Longrightarrow> \<not> exists fs q \<Longrightarrow> logger_entry output_dir q n"
    by (auto simp: only_adds_def)
  show ?thesis unfolding only_adds_def
  proof (intro conjI allI impI)
    fix q assume "exists (without fs ?lp) q"
    then have "q \<noteq> ?lp" and "exists fs q" by (auto simp: exists_def lw split: if_splits)
    with 1 [of q] show "lookup (without fs' ?lp) q = lookup (without fs ?lp) q"
      by (simp add: lw)
  next
    fix q n assume "lookup (without fs' ?lp) q = Some n \<and> \<not> exists (without fs ?lp) q"
    then have q: "q \<noteq> ?lp" and l: "lookup fs' q = Some n" and x: "\<not> exists fs q"
      by (auto simp: exists_def lw split: if_splits)
    from 2 [OF l x] q show "output_ancestor output_dir q n"
      by (simp add: logger_entry_def output_ancestor_def)
  qed
qed

text \<open>
  Claim C3, as the code has it. A run in preview mode creates no group folder, copies and
  deletes no file and writes no archive, but it is not without effect on the file system:
  \<^verbatim>\<open>setup_logging\<close> runs before the mode is looked at, so the output directory is created
  with its missing ancestors, \<^verbatim>\<open>photozipper.log\<close> is created in it when it is not there, and
  the records of the run are appended to it. The statement leaves the log file out: every
  other path that existed keeps its node, and the only other new nodes are the output
  directory and its ancestors.
\<close>

theorem dry_run_touches_only_the_log:
  assumes "a_dry_run a"
  shows "only_adds (without fs (log_file a))
           (without (st_fs (snd (main re_compile io (Arguments a) fs))) (log_file a))
           (output_ancestor (a_output a))
         \<and> files_copied (snd (main re_compile io (Arguments a) fs)) = 0
         \<and> files_deleted (snd (main re_compile io (Arguments a) fs)) = 0"
proof (cases "validation_error re_compile a fs")
  case True
  from main_validation_error [OF True] obtain msg where
    "main re_compile io (Arguments a) fs = (1, (initial_state fs)\<lparr>st_stderr := [msg]\<rparr>)" by blast
  then show ?thesis by (simp add: initial_state_def only_adds_refl)
next
  case False
  let ?fs1 = "fst (setup_logging fs (a_output a) (a_log_level a))"
  let ?st = "(initial_state fs)\<lparr>st_fs := ?fs1,
                st_records := snd (snd (setup_logging fs (a_output a) (a_log_level a)))\<rparr>"
  from organize_dry [OF assms, of re_compile io ?st] main_valid [OF False]
  have "st_fs (snd (main re_compile io (Arguments a) fs)) = ?fs1"
    and "files_copied (snd (main re_compile io (Arguments a) fs)) = 0"
    and "files_deleted (snd (main re_compile io (Arguments a) fs)) = 0"
    by (simp_all add: initial_state_def)
  with only_adds_without [OF setup_logging_adds [of fs "a_output a" "a_log_level a"]]
  show ?thesis by (simp add: log_file_def)
qed


theorem dry_run_touches_only_the_log_witness:
  "a_dry_run args_dry
   \<and> only_adds (without fs_dry (log_file args_dry))
        (without (st_fs (snd (main compile_example no_faults (Arguments args_dry) fs_dry)))
           (log_file args_dry))
        (output_ancestor (a_output args_dry))
   \<and> without (st_fs (snd (main compile_example no_faults (Arguments args_dry) fs_dry)))
        (log_file args_dry) = fs_dry @ [([''out''], Dir)]
   \<and> files_copied (snd (main compile_example no_faults (Arguments args_dry) fs_dry)) = 0
   \<and> files_deleted (snd (main compile_example no_faults (Arguments args_dry) fs_dry)) = 0
   \<and> fst (main compile_example no_faults (Arguments args_dry) fs_dry) = 0"
proof -
  have h: "a_dry_run args_dry" by (simp add: args_dry_def)
  have e: "without (st_fs (snd (main compile_example no_faults (Arguments args_dry) fs_dry)))
        (log_file args_dry) = fs_dry @ [([''out''], Dir)]
     \<and> fst (main compile_example no_faults (Arguments args_dry) fs_dry) = 0"
    by code_simp
  from dry_run_touches_only_the_log [OF h, of fs_dry compile_example no_faults] h e
  show ?thesis by simp
qed

text \<open>The claim as stated fails: with the output directory absent, the file system after a
  preview run has the output directory and the log file in it.\<close>

theorem dry_run_changes_file_system_counterexample:
  "a_dry_run args_dry
   \<and> fst (main compile_example no_faults (Arguments args_dry) fs_dry) = 0
   \<and> \<not> exists fs_dry [''out'']
   \<and> is_dir (st_fs (snd (main compile_example no_faults (Arguments args_dry) fs_dry))) [''out'']
   \<and> is_file (st_fs (snd (main compile_example no_faults (Arguments args_dry) fs_dry)))
        [''out'', ''photozipper.log'']
   \<and> st_fs (snd (main compile_example no_faults (Arguments args_dry) fs_dry)) \<noteq> fs_dry"
  by code_simp

section \<open>A copy that fails\<close>

lemma process_files_append:
  "process_files io a folder st pre = Continue st1 \<Longrightarrow>
     process_files io a folder st (pre @ xs) = process_files io a folder st1 xs"
proof (induction pre arbitrary: st)
  case Nil
  then show ?case by simp
next
  case (Cons sf pre)
  then show ?case by (cases "process_file io a folder st sf") simp_all
qed

lemma process_file_unverified:
  assumes "\<not> a_dry_run a" and "\<not> exists (st_fs st) (pjoin folder (sf_name sf))"
    and "verify_copy (fst (copy_file_with_metadata io (st_fs st) (sf_path sf)
           (pjoin folder (sf_name sf)))) (sf_path sf) (pjoin folder (sf_name sf)) = Inr False"
  shows "process_file io a folder st sf =
           Return 1 (log ''ERROR'' (''Copy verification failed: '' @ sf_name sf)
                       (st\<lparr>st_fs := fst (copy_file_with_metadata io (st_fs st) (sf_path sf)
                                            (pjoin folder (sf_name sf)))\<rparr>))"
  using assms
  by (cases "copy_file_with_metadata io (st_fs st) (sf_path sf) (pjoin folder (sf_name sf))")
     (simp add: process_file_def Let_def handle_merge_def)

lemma process_file_verified:
  assumes "\<not> a_dry_run a" and "\<not> a_delete_originals a"
    and "\<not> exists (st_fs st) (pjoin folder (sf_name sf))"
    and "verify_copy (fst (copy_file_with_metadata io (st_fs st) (sf_path sf)
           (pjoin folder (sf_name sf)))) (sf_path sf) (pjoin folder (sf_name sf)) = Inr True"
  shows "process_file io a folder st sf =
           Continue (log ''DEBUG'' (''Copied: '' @ sf_name sf)
                       (st\<lparr>st_fs := fst (copy_file_with_metadata io (st_fs st) (sf_path sf)
                                            (pjoin folder (sf_name sf))),
                           files_copied := files_copied st + 1\<rparr>))"
  using assms
  by (cases "copy_file_with_metadata io (st_fs st) (sf_path sf) (pjoin folder (sf_name sf))")
     (simp add: process_file_def Let_def handle_merge_def)

text \<open>
  Claim C1, as the code has it. \<open>main\<close> does not look at what \<^verbatim>\<open>copy_file_with_metadata\<close>
  returns, so a copy that fails is never recorded as such: what happens to the file is
  decided by \<^verbatim>\<open>verify_copy\<close> on the state that the failed copy left. When the verification
  fails, the run logs it and returns exit code 1 at once, and the files after this one are
  not processed; this is so whenever the failed copy wrote nothing, since the target is then
  still absent. Only when the failed copy left a target of the size of the source (the
  copy failed after the data was written) is the file counted as copied, and the run (here
  without \<^verbatim>\<open>--delete-originals\<close>) goes on with the next file.
\<close>

theorem failed_copy_is_judged_by_verification:
  assumes "\<not> a_dry_run a"
    and "process_files io a folder st0 pre = Continue st"
    and "\<not> exists (st_fs st) (pjoin folder (sf_name sf))"
    and "copy_file_with_metadata io (st_fs st) (sf_path sf) (pjoin folder (sf_name sf)) =
           (fs1, False)"
  shows "(verify_copy fs1 (sf_path sf) (pjoin folder (sf_name sf)) = Inr False \<longrightarrow>
            process_files io a folder st0 (pre @ sf # rest) =
              Return 1 (log ''ERROR'' (''Copy verification failed: '' @ sf_name sf)
                          (st\<lparr>st_fs := fs1\<rparr>)))
         \<and> (fs1 = st_fs st \<longrightarrow>
              verify_copy fs1 (sf_path sf) (pjoin folder (sf_name sf)) = Inr False)
         \<and> (verify_copy fs1 (sf_path sf) (pjoin folder (sf_name sf)) = Inr True
              \<and> \<not> a_delete_originals a \<longrightarrow>
            process_files io a folder st0 (pre @ sf # rest) =
              process_files io a folder
                (log ''DEBUG'' (''Copied: '' @ sf_name sf)
                   (st\<lparr>st_fs := fs1, files_copied := files_copied st + 1\<rparr>)) rest)"
proof (intro conjI impI)
  let ?target = "pjoin folder (sf_name sf)"
  from assms(4) have f: "fst (copy_file_with_metadata io (st_fs st) (sf_path sf) ?target) = fs1"
    by simp
  note ap = process_files_append [OF assms(2), of "sf # rest"]
  {
    assume "verify_copy fs1 (sf_path sf) ?target = Inr False"
    with f have "verify_copy (fst (copy_file_with_metadata io (st_fs st) (sf_path sf) ?target))
        (sf_path sf) ?target = Inr False" by simp
    from process_file_unverified [OF assms(1,3) this] f ap
    show "process_files io a folder st0 (pre @ sf # rest) =
        Return 1 (log ''ERROR'' (''Copy verification failed: '' @ sf_name sf) (st\<lparr>st_fs := fs1\<rparr>))"
      by simp
  }
  {
    assume "fs1 = st_fs st"
    with assms(3) show "verify_copy fs1 (sf_path sf) ?target = Inr False"
      by (simp add: verify_copy_def)
  }
  {
    assume "verify_copy fs1 (sf_path sf) ?target = Inr True \<and> \<not> a_delete_originals a"
    with f have v: "verify_copy (fst (copy_file_with_metadata io (st_fs st) (sf_path sf) ?target))
        (sf_path sf) ?target = Inr True" and nd: "\<not> a_delete_originals a" by simp_all
    from process_file_verified [OF assms(1) nd assms(3) v] f ap
    show "process_files io a folder st0 (pre @ sf # rest) =
        process_files io a folder
          (log ''DEBUG'' (''Copied: '' @ sf_name sf)
             (st\<lparr>st_fs := fs1, files_copied := files_copied st + 1\<rparr>)) rest"
      by simp
  }
qed

theorem failed_copy_is_judged_by_verification_witness:
  "\<not> a_dry_run args_trip \<and> \<not> a_delete_originals args_trip
   \<and> copy_file_with_metadata no_faults (fs_unreadable @ [([''out'', ''trip''], Dir)])
        [''src'', ''trip_a.jpg''] [''out'', ''trip'', ''trip_a.jpg'']
       = (fs_unreadable @ [([''out'', ''trip''], Dir)], False)
   \<and> process_files no_faults args_trip [''out'', ''trip'']
        (initial_state (fs_unreadable @ [([''out'', ''trip''], Dir)])) [sf_trip_a, sf_trip_b] =
       Return 1 (log ''ERROR'' ''Copy verification failed: trip_a.jpg''
                   (initial_state (fs_unreadable @ [([''out'', ''trip''], Dir)])))
   \<and> copy_file_with_metadata metadata_fault (fs_unreadable @ [([''out'', ''trip''], Dir)])
        [''src'', ''trip_b.jpg''] [''out'', ''trip'', ''trip_b.jpg'']
       = (fs_unreadable @ [([''out'', ''trip''], Dir),
                           ([''out'', ''trip'', ''trip_b.jpg''], File (Raw ''bb'') True)], False)
   \<and> process_files metadata_fault args_trip [''out'', ''trip'']
        (initial_state (fs_unreadable @ [([''out'', ''trip''], Dir)])) [sf_trip_b] =
       Continue (log ''DEBUG'' ''Copied: trip_b.jpg''
                   ((initial_state (fs_unreadable @ [([''out'', ''trip''], Dir)]))
                      \<lparr>st_fs := fs_unreadable @ [([''out'', ''trip''], Dir),
                           ([''out'', ''trip'', ''trip_b.jpg''], File (Raw ''bb'') True)],
                       files_copied := 1\<rparr>))"
proof -
  let ?fs = "fs_unreadable @ [([''out'', ''trip''], Dir)]"
  let ?fs1 = "fs_unreadable @ [([''out'', ''trip''], Dir),
                ([''out'', ''trip'', ''trip_b.jpg''], File (Raw ''bb'') True)]"
  let ?st = "initial_state ?fs"
  have h1: "\<not> a_dry_run args_trip" "\<not> a_delete_originals args_trip"
    by (simp_all add: args_trip_def)
  have f: "st_fs ?st = ?fs" "files_copied ?st = 0" by (simp_all add: initial_state_def)
  have n: "sf_name sf_trip_a = ''trip_a.jpg''" "sf_path sf_trip_a = [''src'', ''trip_a.jpg'']"
    "sf_name sf_trip_b = ''trip_b.jpg''" "sf_path sf_trip_b = [''src'', ''trip_b.jpg'']"
    "pjoin [''out'', ''trip''] ''trip_a.jpg'' = [''out'', ''trip'', ''trip_a.jpg'']"
    "pjoin [''out'', ''trip''] ''trip_b.jpg'' = [''out'', ''trip'', ''trip_b.jpg'']"
    by (simp_all add: sf_trip_a_def sf_trip_b_def pjoin_def)
  have h2: "\<And>io. process_files io args_trip [''out'', ''trip''] ?st [] = Continue ?st" by simp
  have a3: "\<not> exists (st_fs ?st) (pjoin [''out'', ''trip''] (sf_name sf_trip_a))" by code_simp
  have a4: "copy_file_with_metadata no_faults (st_fs ?st) (sf_path sf_trip_a)
              (pjoin [''out'', ''trip''] (sf_name sf_trip_a)) = (st_fs ?st, False)"
    by code_simp
  from failed_copy_is_judged_by_verification [OF h1(1) h2 a3 a4, of "[sf_trip_b]"]
  have r1: "process_files no_faults args_trip [''out'', ''trip''] ?st [sf_trip_a, sf_trip_b] =
       Return 1 (log ''ERROR'' ''Copy verification failed: trip_a.jpg'' ?st)"
    by (simp add: n)
  have b3: "\<not> exists (st_fs ?st) (pjoin [''out'', ''trip''] (sf_name sf_trip_b))" by code_simp
  have b4: "copy_file_with_metadata metadata_fault (st_fs ?st) (sf_path sf_trip_b)
              (pjoin [''out'', ''trip''] (sf_name sf_trip_b)) = (?fs1, False)"
    by code_simp
  have b5: "verify_copy ?fs1 (sf_path sf_trip_b) (pjoin [''out'', ''trip''] (sf_name sf_trip_b))
              = Inr True"
    by code_simp
  from failed_copy_is_judged_by_verification [OF h1(1) h2 b3 b4, of "[]"] b5 h1(2)
  have r2: "process_files metadata_fault args_trip [''out'', ''trip''] ?st [sf_trip_b] =
       Continue (log ''DEBUG'' ''Copied: trip_b.jpg''
                   (?st\<lparr>st_fs := ?fs1, files_copied := 1\<rparr>))"
    by (simp add: n f)
  from a4 b4 have "copy_file_with_metadata no_faults ?fs [''src'', ''trip_a.jpg'']
        [''out'', ''trip'', ''trip_a.jpg''] = (?fs, False)"
    and "copy_file_with_metadata metadata_fault ?fs [''src'', ''trip_b.jpg'']
        [''out'', ''trip'', ''trip_b.jpg''] = (?fs1, False)"
    by (simp_all add: n f)
  with h1 r1 r2 show ?thesis by simp
qed

text \<open>The claim as stated fails: the first file of the group cannot be read, its copy fails,
  and the run returns 1 without copying the second file, which could be read.\<close>

theorem copy_failure_aborts_run_counterexample:
  "scan_and_group compile_example fs_unreadable [''src''] ''trip'' =
       Inr [\<lparr>fg_name = ''trip'', fg_files = [sf_trip_a, sf_trip_b]\<rparr>]
   \<and> snd (copy_file_with_metadata no_faults (fs_unreadable @ [([''out'', ''trip''], Dir)])
        [''src'', ''trip_a.jpg''] [''out'', ''trip'', ''trip_a.jpg'']) = False
   \<and> fst (main compile_example no_faults (Arguments args_trip) fs_unreadable) = 1
   \<and> last (st_records (snd (main compile_example no_faults (Arguments args_trip) fs_unreadable))) =
       (''ERROR'', ''Copy verification failed: trip_a.jpg'')
   \<and> files_copied (snd (main compile_example no_faults (Arguments args_trip) fs_unreadable)) = 0
   \<and> \<not> exists (st_fs (snd (main compile_example no_faults (Arguments args_trip) fs_unreadable)))
           [''out'', ''trip'', ''trip_b.jpg'']
   \<and> lookup fs_unreadable [''src'', ''trip_b.jpg''] = Some (File (Raw ''bb'') True)"
  by code_simp


section \<open>Exit codes\<close>

lemma error_logged_log: "error_logged (log ''ERROR'' msg st)"
  by (simp add: error_logged_def log_def)

lemma process_file_return:
  "process_file io a folder st sf = Return code st' \<Longrightarrow> code = 1 \<and> error_logged st'"
  by (auto simp: process_file_def Let_def error_logged_log
      split: if_splits prod.splits sum.splits bool.splits)

lemma process_files_return:
  "process_files io a folder st sfs = Return code st' \<Longrightarrow> code = 1 \<and> error_logged st'"
proof (induction sfs arbitrary: st)
  case Nil
  then show ?case by simp
next
  case (Cons sf sfs)
  show ?case
  proof (cases "process_file io a folder st sf")
    case (Continue st1)
    with Cons show ?thesis by simp
  next
    case (Return c st1)
    with Cons.prems process_file_return [OF Return] show ?thesis by simp
  next
    case (Raise e st1)
    with Cons.prems show ?thesis by simp
  qed
qed

lemma archive_group_return:
  "archive_group a name folder st = Return code st' \<Longrightarrow> code = 1 \<and> error_logged st'"
  by (auto simp: archive_group_def Let_def error_logged_log
      split: if_splits prod.splits sum.splits option.splits)

lemma process_group_return:
  assumes "process_group io a st grp = Return code st'"
  shows "code = 1 \<and> error_logged st'"
proof -
  let ?folder = "pjoin (a_output a) (fg_name grp)"
  note u = process_group_unfold [of io a st grp]
  show ?thesis
  proof (cases "prepare_folder a ?folder (group_start st grp)")
    case (Inl e)
    with u assms show ?thesis by simp
  next
    case (Inr st1)
    show ?thesis
    proof (cases "process_files io a ?folder st1 (fg_files grp)")
      case (Continue st2)
      with u Inr assms have "archive_group a (fg_name grp) ?folder st2 = Return code st'"
        by simp
      then show ?thesis by (rule archive_group_return)
    next
      case (Return c st2)
      with u Inr assms process_files_return [OF Return] show ?thesis by simp
    next
      case (Raise e st2)
      with u Inr assms show ?thesis by simp
    qed
  qed
qed

lemma process_groups_return:
  "process_groups io a st grps = Return code st' \<Longrightarrow> code = 1 \<and> error_logged st'"
proof (induction grps arbitrary: st)
  case Nil
  then show ?case by simp
next
  case (Cons grp grps)
  show ?case
  proof (cases "process_group io a st grp")
    case (Continue st1)
    with Cons show ?thesis by simp
  next
    case (Return c st1)
    with Cons.prems process_group_return [OF Return] show ?thesis by simp
  next
    case (Raise e st1)
    with Cons.prems show ?thesis by simp
  qed
qed

lemma process_groups_append:
  "process_groups io a st before = Continue st1 \<Longrightarrow>
     process_groups io a st (before @ xs) = process_groups io a st1 xs"
proof (induction before arbitrary: st)
  case Nil
  then show ?case by simp
next
  case (Cons grp before)
  then show ?case by (cases "process_group io a st grp") simp_all
qed

lemma reaches_file_Some:
  assumes "reaches_file io a st0 before grp pre = Some st"
  shows "\<exists>st1 st2. process_groups io a st0 before = Continue st1
     \<and> prepare_folder a (pjoin (a_output a) (fg_name grp)) (group_start st1 grp) = Inr st2
     \<and> process_files io a (pjoin (a_output a) (fg_name grp)) st2 pre = Continue st"
  using assms
  by (auto simp: reaches_file_def split: outcome.splits sum.splits)

text \<open>A run that passed the validation and found groups is the loop over the groups.\<close>

lemma main_found:
  assumes "\<not> validation_error re_compile a fs"
    and "scan_and_group re_compile (fst (setup_logging fs (a_output a) (a_log_level a)))
           (a_source a) (a_pattern a) = Inr groups"
    and "process_groups io a (loop_start a fs (length groups)) groups = Return code st'"
  shows "main re_compile io (Arguments a) fs = (code, st')"
proof -
  from assms(3) have ne: "groups \<noteq> []" by (cases groups) simp_all
  from assms(2,3) ne show ?thesis
    unfolding main_valid [OF assms(1)] organize_def Let_def loop_start_def
    by (simp add: log_def initial_state_def)
qed

lemma group_stops_at_file:
  assumes "process_groups io a st0 before = Continue st1"
    and "prepare_folder a (pjoin (a_output a) (fg_name grp)) (group_start st1 grp) = Inr st2"
    and "process_files io a (pjoin (a_output a) (fg_name grp)) st2 pre = Continue st"
    and "fg_files grp = pre @ sf # rest"
    and "process_file io a (pjoin (a_output a) (fg_name grp)) st sf = Return code st'"
  shows "process_groups io a st0 (before @ grp # after) = Return code st'"
proof -
  from process_files_append [OF assms(3), of "sf # rest"] assms(4,5)
  have "process_files io a (pjoin (a_output a) (fg_name grp)) st2 (fg_files grp) = Return code st'"
    by simp
  with assms(2) have "process_group io a st1 grp = Return code st'"
    by (simp add: process_group_unfold)
  with process_groups_append [OF assms(1), of "grp # after"] show ?thesis by simp
qed

lemma group_stops_at_archive:
  assumes "process_groups io a st0 before = Continue st1"
    and "prepare_folder a (pjoin (a_output a) (fg_name grp)) (group_start st1 grp) = Inr st2"
    and "process_files io a (pjoin (a_output a) (fg_name grp)) st2 (fg_files grp) = Continue st"
    and "archive_group a (fg_name grp) (pjoin (a_output a) (fg_name grp)) st = Return code st'"
  shows "process_groups io a st0 (before @ grp # after) = Return code st'"
proof -
  from assms(2,3,4) have "process_group io a st1 grp = Return code st'"
    by (simp add: process_group_unfold)
  with process_groups_append [OF assms(1), of "grp # after"] show ?thesis by simp
qed

text \<open>
  Claim C2, as the code has it. A validation error makes \<open>main\<close> return 1 before the logger
  is set up: the file system is untouched, nothing is logged and one line goes to standard
  error. A verification failure at any file the run gets to, and a failure to create the
  archive of any group the run gets to, make \<open>main\<close> log an error record and return 1 at
  once, with the state reached: a validation error and a fatal error have the same exit
  code. Exit code 2 is what \<open>main\<close> returns when the program is started without arguments.
\<close>

theorem validation_and_fatal_errors_exit_1:
  "(validation_error re_compile a fs \<longrightarrow>
      fst (main re_compile io (Arguments a) fs) = 1
      \<and> st_fs (snd (main re_compile io (Arguments a) fs)) = fs
      \<and> st_records (snd (main re_compile io (Arguments a) fs)) = []
      \<and> length (st_stderr (snd (main re_compile io (Arguments a) fs))) = 1)
   \<and> (\<not> validation_error re_compile a fs \<and> \<not> a_dry_run a
       \<and> scan_and_group re_compile (fst (setup_logging fs (a_output a) (a_log_level a)))
            (a_source a) (a_pattern a) = Inr (before @ grp # after)
       \<and> reaches_file io a (loop_start a fs (length (before @ grp # after))) before grp pre = Some st
       \<and> fg_files grp = pre @ sf # rest
       \<and> \<not> exists (st_fs st) (pjoin (pjoin (a_output a) (fg_name grp)) (sf_name sf))
       \<and> verify_copy
            (fst (copy_file_with_metadata io (st_fs st) (sf_path sf)
                    (pjoin (pjoin (a_output a) (fg_name grp)) (sf_name sf))))
            (sf_path sf) (pjoin (pjoin (a_output a) (fg_name grp)) (sf_name sf)) = Inr False
      \<longrightarrow> main re_compile io (Arguments a) fs =
            (1, log ''ERROR'' (''Copy verification failed: '' @ sf_name sf)
                  (st\<lparr>st_fs := fst (copy_file_with_metadata io (st_fs st) (sf_path sf)
                                       (pjoin (pjoin (a_output a) (fg_name grp)) (sf_name sf)))\<rparr>)))
   \<and> (\<not> validation_error re_compile a fs \<and> \<not> a_dry_run a
       \<and> scan_and_group re_compile (fst (setup_logging fs (a_output a) (a_log_level a)))
            (a_source a) (a_pattern a) = Inr (before @ grp # after)
       \<and> reaches_file io a (loop_start a fs (length (before @ grp # after))) before grp
            (fg_files grp) = Some st
       \<and> create_zip (st_fs st) (pjoin (a_output a) (fg_name grp))
            (pjoin (a_output a) (fg_name grp @ ''.zip'')) = (fs1, Some e)
      \<longrightarrow> main re_compile io (Arguments a) fs =
            (1, log ''ERROR'' (''Error creating ZIP for '' @ fg_name grp @ '': '' @ str_error e)
                  (st\<lparr>st_fs := fs1\<rparr>)))
   \<and> fst (main re_compile io NoArguments fs) = 2"
proof (intro conjI impI)
  assume v: "validation_error re_compile a fs"
  from main_validation_error [OF v] obtain msg where
    m: "main re_compile io (Arguments a) fs = (1, (initial_state fs)\<lparr>st_stderr := [msg]\<rparr>)"
    by blast
  from m show "fst (main re_compile io (Arguments a) fs) = 1" by simp
  from m show "st_fs (snd (main re_compile io (Arguments a) fs)) = fs"
    by (simp add: initial_state_def)
  from m show "st_records (snd (main re_compile io (Arguments a) fs)) = []"
    by (simp add: initial_state_def)
  from m show "length (st_stderr (snd (main re_compile io (Arguments a) fs))) = 1" by simp
next
  let ?folder = "pjoin (a_output a) (fg_name grp)"
  let ?groups = "before @ grp # after"
  let ?fs1 = "fst (copy_file_with_metadata io (st_fs st) (sf_path sf) (pjoin ?folder (sf_name sf)))"
  assume h: "\<not> validation_error re_compile a fs \<and> \<not> a_dry_run a
       \<and> scan_and_group re_compile (fst (setup_logging fs (a_output a) (a_log_level a)))
            (a_source a) (a_pattern a) = Inr ?groups
       \<and> reaches_file io a (loop_start a fs (length ?groups)) before grp pre = Some st
       \<and> fg_files grp = pre @ sf # rest
       \<and> \<not> exists (st_fs st) (pjoin ?folder (sf_name sf))
       \<and> verify_copy ?fs1 (sf_path sf) (pjoin ?folder (sf_name sf)) = Inr False"
  then have nv: "\<not> validation_error re_compile a fs" and nd: "\<not> a_dry_run a"
    and sc: "scan_and_group re_compile (fst (setup_logging fs (a_output a) (a_log_level a)))
            (a_source a) (a_pattern a) = Inr ?groups"
    and rf: "reaches_file io a (loop_start a fs (length ?groups)) before grp pre = Some st"
    and fl: "fg_files grp = pre @ sf # rest"
    and ne: "\<not> exists (st_fs st) (pjoin ?folder (sf_name sf))"
    and vf: "verify_copy ?fs1 (sf_path sf) (pjoin ?folder (sf_name sf)) = Inr False"
    by simp_all
  from reaches_file_Some [OF rf] obtain st1 st2
    where 1: "process_groups io a (loop_start a fs (length ?groups)) before = Continue st1"
      and 2: "prepare_folder a ?folder (group_start st1 grp) = Inr st2"
      and 3: "process_files io a ?folder st2 pre = Continue st"
    by blast
  from group_stops_at_file [OF 1 2 3 fl process_file_unverified [OF nd ne vf], of after]
  have "process_groups io a (loop_start a fs (length ?groups)) ?groups =
      Return 1 (log ''ERROR'' (''Copy verification failed: '' @ sf_name sf) (st\<lparr>st_fs := ?fs1\<rparr>))" .
  from main_found [OF nv sc this]
  show "main re_compile io (Arguments a) fs =
      (1, log ''ERROR'' (''Copy verification failed: '' @ sf_name sf) (st\<lparr>st_fs := ?fs1\<rparr>))" .
next
  let ?folder = "pjoin (a_output a) (fg_name grp)"
  let ?groups = "before @ grp # after"
  assume h: "\<not> validation_error re_compile a fs \<and> \<not> a_dry_run a
       \<and> scan_and_group re_compile (fst (setup_logging fs (a_output a) (a_log_level a)))
            (a_source a) (a_pattern a) = Inr ?groups
       \<and> reaches_file io a (loop_start a fs (length ?groups)) before grp (fg_files grp) = Some st
       \<and> create_zip (st_fs st) ?folder (pjoin (a_output a) (fg_name grp @ ''.zip'')) = (fs1, Some e)"
  then have nv: "\<not> validation_error re_compile a fs" and nd: "\<not> a_dry_run a"
    and sc: "scan_and_group re_compile (fst (setup_logging fs (a_output a) (a_log_level a)))
            (a_source a) (a_pattern a) = Inr ?groups"
    and rf: "reaches_file io a (loop_start a fs (length ?groups)) before grp (fg_files grp) = Some st"
    and cz: "create_zip (st_fs st) ?folder (pjoin (a_output a) (fg_name grp @ ''.zip'')) = (fs1, Some e)"
    by simp_all
  from reaches_file_Some [OF rf] obtain st1 st2
    where 1: "process_groups io a (loop_start a fs (length ?groups)) before = Continue st1"
      and 2: "prepare_folder a ?folder (group_start st1 grp) = Inr st2"
      and 3: "process_files io a ?folder st2 (fg_files grp) = Continue st"
    by blast
  from nd cz have "archive_group a (fg_name grp) ?folder st =
      Return 1 (log ''ERROR'' (''Error creating ZIP for '' @ fg_name grp @ '': '' @ str_error e)
                  (st\<lparr>st_fs := fs1\<rparr>))"
    by (simp add: archive_group_def Let_def)
  from group_stops_at_archive [OF 1 2 3 this, of after]
  have "process_groups io a (loop_start a fs (length ?groups)) ?groups =
      Return 1 (log ''ERROR'' (''Error creating ZIP for '' @ fg_name grp @ '': '' @ str_error e)
                  (st\<lparr>st_fs := fs1\<rparr>))" .
  from main_found [OF nv sc this]
  show "main re_compile io (Arguments a) fs =
      (1, log ''ERROR'' (''Error creating ZIP for '' @ fg_name grp @ '': '' @ str_error e)
            (st\<lparr>st_fs := fs1\<rparr>))" .
next
  show "fst (main re_compile io NoArguments fs) = 2" by (simp add: main_def)
qed

theorem validation_and_fatal_errors_exit_1_witness:
  "validation_error compile_example args_blank fs_unreadable
   \<and> fst (main compile_example no_faults (Arguments args_blank) fs_unreadable) = 1
   \<and> st_records (snd (main compile_example no_faults (Arguments args_blank) fs_unreadable)) = []
   \<and> \<not> validation_error compile_example args_trip fs_unreadable
   \<and> fst (main compile_example no_faults (Arguments args_trip) fs_unreadable) = 1
   \<and> last (st_records (snd (main compile_example no_faults (Arguments args_trip) fs_unreadable)))
       = (''ERROR'', ''Copy verification failed: trip_a.jpg'')
   \<and> \<not> validation_error compile_example args_trip fs_zip_blocked
   \<and> fst (main compile_example no_faults (Arguments args_trip) fs_zip_blocked) = 1
   \<and> last (st_records (snd (main compile_example no_faults (Arguments args_trip) fs_zip_blocked)))
       = (''ERROR'', ''Error creating ZIP for trip: IsADirectoryError'')
   \<and> fst (main compile_example no_faults NoArguments fs_unreadable) = 2"
proof -
  let ?g = "\<lparr>fg_name = ''trip'', fg_files = [sf_trip_a, sf_trip_b]\<rparr>"
  let ?h = "\<lparr>fg_name = ''trip'', fg_files = [sf_trip_b]\<rparr>"
  let ?st = "the (reaches_file no_faults args_trip (loop_start args_trip fs_unreadable 1) [] ?g [])"
  let ?su = "the (reaches_file no_faults args_trip (loop_start args_trip fs_zip_blocked 1) [] ?h
                    [sf_trip_b])"
  have v: "validation_error compile_example args_blank fs_unreadable" by code_simp
  have nd: "\<not> a_dry_run args_trip" by (simp add: args_trip_def)
  have f: "fg_files ?g = [] @ sf_trip_a # [sf_trip_b]" "fg_name ?g = ''trip''"
    "fg_files ?h = [sf_trip_b]" "fg_name ?h = ''trip''" "length ([] @ ?g # []) = 1"
    "length ([] @ ?h # []) = 1"
    by simp_all
  have a1: "\<not> validation_error compile_example args_trip fs_unreadable" by code_simp
  have a2: "scan_and_group compile_example
              (fst (setup_logging fs_unreadable (a_output args_trip) (a_log_level args_trip)))
              (a_source args_trip) (a_pattern args_trip) = Inr ([] @ ?g # [])"
    by code_simp
  have a3: "reaches_file no_faults args_trip (loop_start args_trip fs_unreadable 1) [] ?g []
              = Some ?st"
    by code_simp
  have a4: "\<not> exists (st_fs ?st) (pjoin (pjoin (a_output args_trip) ''trip'') (sf_name sf_trip_a))"
    by code_simp
  have a5: "verify_copy
            (fst (copy_file_with_metadata no_faults (st_fs ?st) (sf_path sf_trip_a)
                    (pjoin (pjoin (a_output args_trip) ''trip'') (sf_name sf_trip_a))))
            (sf_path sf_trip_a) (pjoin (pjoin (a_output args_trip) ''trip'') (sf_name sf_trip_a))
          = Inr False"
    by code_simp
  have n: "sf_name sf_trip_a = ''trip_a.jpg''" by (simp add: sf_trip_a_def)
  from validation_and_fatal_errors_exit_1
         [where re_compile = compile_example and io = no_faults and a = args_blank
            and fs = fs_unreadable] v
  have r1: "fst (main compile_example no_faults (Arguments args_blank) fs_unreadable) = 1
     \<and> st_records (snd (main compile_example no_faults (Arguments args_blank) fs_unreadable)) = []
     \<and> fst (main compile_example no_faults NoArguments fs_unreadable) = 2"
    by blast
  from validation_and_fatal_errors_exit_1
         [where re_compile = compile_example and io = no_faults and a = args_trip
            and fs = fs_unreadable and before = "[]" and grp = ?g and after = "[]"
            and pre = "[]" and sf = sf_trip_a and rest = "[sf_trip_b]" and st = ?st]
       a1 nd a2 a3 a4 a5
  have "main compile_example no_faults (Arguments args_trip) fs_unreadable =
      (1, log ''ERROR'' (''Copy verification failed: '' @ sf_name sf_trip_a)
            (?st\<lparr>st_fs := fst (copy_file_with_metadata no_faults (st_fs ?st) (sf_path sf_trip_a)
                    (pjoin (pjoin (a_output args_trip) ''trip'') (sf_name sf_trip_a)))\<rparr>))"
    unfolding f by blast
  then have r2: "fst (main compile_example no_faults (Arguments args_trip) fs_unreadable) = 1
     \<and> last (st_records (snd (main compile_example no_faults (Arguments args_trip) fs_unreadable)))
         = (''ERROR'', ''Copy verification failed: trip_a.jpg'')"
    by (simp add: log_def n)
  have b1: "\<not> validation_error compile_example args_trip fs_zip_blocked" by code_simp
  have b2: "scan_and_group compile_example
              (fst (setup_logging fs_zip_blocked (a_output args_trip) (a_log_level args_trip)))
              (a_source args_trip) (a_pattern args_trip) = Inr ([] @ ?h # [])"
    by code_simp
  have b3: "reaches_file no_faults args_trip (loop_start args_trip fs_zip_blocked 1) [] ?h
              [sf_trip_b] = Some ?su"
    by code_simp
  have b4: "create_zip (st_fs ?su) (pjoin (a_output args_trip) ''trip'')
              (pjoin (a_output args_trip) (''trip'' @ ''.zip'')) = (st_fs ?su, Some IsADirectoryError)"
    by code_simp
  from validation_and_fatal_errors_exit_1
         [where re_compile = compile_example and io = no_faults and a = args_trip
            and fs = fs_zip_blocked and before = "[]" and grp = ?h and after = "[]"
            and st = ?su and ?fs1.0 = "st_fs ?su" and e = IsADirectoryError]
       b1 nd b2 b3 b4
  have "main compile_example no_faults (Arguments args_trip) fs_zip_blocked =
      (1, log ''ERROR'' (''Error creating ZIP for '' @ ''trip'' @ '': '' @ str_error IsADirectoryError)
            (?su\<lparr>st_fs := st_fs ?su\<rparr>))"
    unfolding f by blast
  then have r3: "fst (main compile_example no_faults (Arguments args_trip) fs_zip_blocked) = 1
     \<and> last (st_records (snd (main compile_example no_faults (Arguments args_trip) fs_zip_blocked)))
         = (''ERROR'', ''Error creating ZIP for trip: IsADirectoryError'')"
    by (simp add: log_def)
  from v a1 b1 r1 r2 r3 show ?thesis by blast
qed

text \<open>The claim as stated fails: a blank pattern (a validation error) and a copy that cannot
  be verified (a fatal error of the run) both end the run with exit code 1.\<close>

theorem same_exit_code_counterexample:
  "validation_error compile_example args_blank fs_unreadable
   \<and> fst (main compile_example no_faults (Arguments args_blank) fs_unreadable) = 1
   \<and> \<not> validation_error compile_example args_trip fs_unreadable
   \<and> last (st_records (snd (main compile_example no_faults (Arguments args_trip) fs_unreadable))) =
       (''ERROR'', ''Copy verification failed: trip_a.jpg'')
   \<and> fst (main compile_example no_faults (Arguments args_trip) fs_unreadable) = 1
   \<and> fst (main compile_example no_faults (Arguments args_blank) fs_unreadable) =
       fst (main compile_example no_faults (Arguments args_trip) fs_unreadable)"
  by code_simp

section \<open>Running twice\<close>

lemma pjoin_plain: "plain_name g \<Longrightarrow> pjoin out g = out @ [g]"
  by (simp add: pjoin_def plain_name_def)

lemma pjoin_zip: "pjoin out (g @ ''.zip'') = out @ [g @ ''.zip'']"
  by (auto simp: pjoin_def)

lemma group_step_refl: "group_step out h fs fs"
  by (simp add: group_step_def)

lemma group_step_trans:
  assumes "group_step out h fs fs1" and "group_step out h fs1 fs2"
  shows "group_step out h fs fs2"
  unfolding group_step_def
proof (intro conjI allI impI)
  fix p assume a: "exists fs p \<and> p \<noteq> out @ [h @ ''.zip'']"
  with assms(1) have 1: "lookup fs1 p = lookup fs p" by (simp add: group_step_def)
  from a assms(1) have "exists fs1 p" by (simp add: group_step_def)
  with a assms(2) have "lookup fs2 p = lookup fs1 p" by (simp add: group_step_def)
  with 1 show "lookup fs2 p = lookup fs p" by simp
next
  fix p assume "is_dir fs p"
  with assms show "is_dir fs2 p" by (simp add: group_step_def)
next
  fix p assume "exists fs p"
  with assms show "exists fs2 p" by (simp add: group_step_def)
next
  fix d assume "d \<noteq> out \<and> d \<noteq> out @ [h]"
  with assms show "children fs2 d = children fs d" by (simp add: group_step_def)
next
  fix p :: path assume "length p \<le> length out"
  with assms show "lookup fs2 p = lookup fs p" by (simp add: group_step_def)
qed

text \<open>A node put at a new path below the output directory.\<close>

lemma group_step_put_new:
  assumes "\<not> exists fs p" and "parent p = out \<or> parent p = out @ [h]" and "p \<noteq> []"
  shows "group_step out h fs (put fs p n)"
  unfolding group_step_def
proof (intro conjI allI impI)
  fix q assume "exists fs q \<and> q \<noteq> out @ [h @ ''.zip'']"
  with assms show "lookup (put fs p n) q = lookup fs q" by (auto simp: lookup_put)
next
  fix q assume "is_dir fs q"
  with assms show "is_dir (put fs p n) q" by (auto simp: is_dir_def lookup_put exists_def)
next
  fix q assume "exists fs q"
  with assms show "exists (put fs p n) q" by (auto simp: exists_def lookup_put)
next
  fix d assume "d \<noteq> out \<and> d \<noteq> out @ [h]"
  with assms(2) have "parent p \<noteq> d" by auto
  then show "children (put fs p n) d = children fs d" by (rule children_put_elsewhere)
next
  fix q :: path assume l: "length q \<le> length out"
  from assms(2,3) have "length p > length out"
    by (cases p rule: rev_cases) (auto simp: parent_def)
  with l have "q \<noteq> p" by auto
  with assms(3) show "lookup (put fs p n) q = lookup fs q" by (simp add: lookup_put)
qed

text \<open>The archive of the group written over a file or at a new path.\<close>

lemma group_step_put_zip:
  assumes "\<not> is_dir fs (out @ [h @ ''.zip''])"
  shows "group_step out h fs (put fs (out @ [h @ ''.zip'']) (File d r))"
  unfolding group_step_def
proof (intro conjI allI impI)
  let ?z = "out @ [h @ ''.zip'']"
  fix q assume "exists fs q \<and> q \<noteq> ?z"
  then show "lookup (put fs ?z (File d r)) q = lookup fs q" by (simp add: lookup_put)
next
  let ?z = "out @ [h @ ''.zip'']"
  fix q assume "is_dir fs q"
  with assms have "q \<noteq> ?z" by auto
  with \<open>is_dir fs q\<close> show "is_dir (put fs ?z (File d r)) q" by (simp add: is_dir_def lookup_put)
next
  let ?z = "out @ [h @ ''.zip'']"
  fix q assume "exists fs q"
  then show "exists (put fs ?z (File d r)) q" by (simp add: exists_def lookup_put)
next
  let ?z = "out @ [h @ ''.zip'']"
  fix dd assume "dd \<noteq> out \<and> dd \<noteq> out @ [h]"
  then have "parent ?z \<noteq> dd" by (auto simp: parent_def)
  then show "children (put fs ?z (File d r)) dd = children fs dd" by (rule children_put_elsewhere)
next
  let ?z = "out @ [h @ ''.zip'']"
  fix q :: path assume l: "length q \<le> length out"
  then have "q \<noteq> ?z" by auto
  then show "lookup (put fs ?z (File d r)) q = lookup fs q" by (simp add: lookup_put)
qed

lemma mkdir_parents_made:
  assumes "mkdir_parents fs p = Inr fs'"
  shows "is_dir fs' p"
proof (cases "p = []")
  case True
  then show ?thesis by (simp add: is_dir_def lookup_def)
next
  case False
  note u = mkdir_parents_unfold [of fs p]
  show ?thesis
  proof (cases "lookup fs p")
    case (Some n)
    with assms u show ?thesis by (cases n) (simp_all add: is_dir_def)
  next
    case None
    show ?thesis
    proof (cases "lookup fs (parent p)")
      case (Some n)
      with None assms u False show ?thesis
        by (cases n) (auto simp: is_dir_def lookup_put)
    next
      case None': None
      with None assms u obtain fs1 where "fs' = put fs1 p Dir"
        by (cases "mkdir_parents fs (parent p)") auto
      with False show ?thesis by (simp add: is_dir_def lookup_put)
    qed
  qed
qed

lemma create_folder_step:
  assumes s: "out_settled fs out" and m: "mkdir_parents fs (out @ [h]) = Inr fs'"
  shows "group_step out h fs fs'"
proof -
  note u = mkdir_parents_unfold [of fs "out @ [h]"]
  show ?thesis
  proof (cases "lookup fs (out @ [h])")
    case (Some n)
    with m u have "fs' = fs" by (cases n) simp_all
    then show ?thesis by (simp add: group_step_refl)
  next
    case None
    then have nex: "\<not> exists fs (out @ [h])" by (simp add: exists_def)
    have "fs' = put fs (out @ [h]) Dir"
    proof (cases "lookup fs out")
      case (Some n)
      with None m u show ?thesis by (cases n) (simp_all add: parent_def)
    next
      case None': None
      then have "\<not> is_dir fs out" by (simp add: is_dir_def)
      with s obtain e where "mkdir_parents fs out = Inl e"
        by (auto simp: out_settled_def isl_def)
      with None None' m u show ?thesis by (simp add: parent_def)
    qed
    moreover from nex have "group_step out h fs (put fs (out @ [h]) Dir)"
      by (intro group_step_put_new) (simp_all add: parent_def)
    ultimately show ?thesis by simp
  qed
qed

lemma copy2_new:
  assumes "\<not> exists fs target"
  shows "fst (copy2 io fs source target) = fs
         \<or> (\<exists>d r. fst (copy2 io fs source target) = put fs target (File d r) \<and> target \<noteq> [])"
proof -
  from assms have nd: "\<not> is_dir fs target" and ne: "target \<noteq> []"
    by (auto simp: exists_def is_dir_def lookup_def)
  from nd ne show ?thesis
    by (auto simp: copy2_def Let_def split: option.splits node.splits if_splits fault.splits)
qed

lemma copy_file_with_metadata_state:
  "fst (copy_file_with_metadata io fs source target) = fst (copy2 io fs source target)"
  by (cases "copy2 io fs source target")
     (simp add: copy_file_with_metadata_def split: option.splits)

lemma parent_pjoin: "parent (pjoin (out @ [h]) name) = out \<or> parent (pjoin (out @ [h]) name) = out @ [h]"
proof (cases "name = [] \<or> name = ''.''")
  case True
  then show ?thesis by (simp add: pjoin_def parent_def)
next
  case False
  then have "pjoin (out @ [h]) name = (out @ [h]) @ [name]" by (simp add: pjoin_def)
  then have "parent (pjoin (out @ [h]) name) = out @ [h]"
    unfolding parent_def by (simp only: butlast_snoc)
  then show ?thesis by simp
qed

lemma process_file_deleted_mono:
  "process_file io a folder st sf = Continue st' \<Longrightarrow> files_deleted st \<le> files_deleted st'"
  by (auto simp: process_file_def Let_def log_def
      split: if_splits prod.splits sum.splits bool.splits)

lemma process_file_step:
  assumes nd: "\<not> a_dry_run a"
    and p: "process_file io a (out @ [h]) st sf = Continue st'"
    and del: "files_deleted st' = files_deleted st"
  shows "group_step out h (st_fs st) (st_fs st')
         \<and> exists (st_fs st') (pjoin (out @ [h]) (sf_name sf))"
proof (cases "exists (st_fs st) (pjoin (out @ [h]) (sf_name sf))")
  case True
  with p have "st_fs st' = st_fs st"
    by (auto simp: process_file_def Let_def handle_merge_def log_def)
  with True show ?thesis by (simp add: group_step_refl)
next
  case False
  let ?t = "pjoin (out @ [h]) (sf_name sf)"
  obtain fs1 copied where c: "copy_file_with_metadata io (st_fs st) (sf_path sf) ?t = (fs1, copied)"
    by (cases "copy_file_with_metadata io (st_fs st) (sf_path sf) ?t") auto
  from p nd False c have v: "verify_copy fs1 (sf_path sf) ?t = Inr True"
    by (auto simp: process_file_def Let_def handle_merge_def
        split: sum.splits bool.splits)
  from p nd False c v del have f: "st_fs st' = fs1"
    by (auto simp: process_file_def Let_def handle_merge_def log_def
        split: if_splits sum.splits prod.splits)
  from v have e1: "exists fs1 ?t"
    by (auto simp: verify_copy_def split: if_splits)
  from c copy_file_with_metadata_state [of io "st_fs st" "sf_path sf" ?t]
  have "fs1 = fst (copy2 io (st_fs st) (sf_path sf) ?t)" by simp
  with copy2_new [OF False, of io "sf_path sf"] e1 False obtain d r where
    fs1: "fs1 = put (st_fs st) ?t (File d r)" and ne: "?t \<noteq> []" by auto
  from False parent_pjoin [of out h "sf_name sf"] ne
  have "group_step out h (st_fs st) (put (st_fs st) ?t (File d r))"
    by (intro group_step_put_new) simp_all
  with fs1 f e1 show ?thesis by simp
qed

lemma process_files_deleted_mono:
  "process_files io a folder st sfs = Continue st' \<Longrightarrow> files_deleted st \<le> files_deleted st'"
proof (induction sfs arbitrary: st)
  case Nil
  then show ?case by simp
next
  case (Cons sf sfs)
  show ?case
  proof (cases "process_file io a folder st sf")
    case (Continue st1)
    with Cons.prems have "process_files io a folder st1 sfs = Continue st'" by simp
    from Cons.IH [OF this] process_file_deleted_mono [OF Continue] show ?thesis by simp
  qed (use Cons.prems in simp_all)
qed

lemma process_files_step:
  assumes nd: "\<not> a_dry_run a"
  shows "process_files io a (out @ [h]) st sfs = Continue st' \<Longrightarrow>
         files_deleted st' = files_deleted st \<Longrightarrow>
         group_step out h (st_fs st) (st_fs st')
         \<and> (\<forall>sf \<in> set sfs. exists (st_fs st') (pjoin (out @ [h]) (sf_name sf)))"
proof (induction sfs arbitrary: st)
  case Nil
  then show ?case by (simp add: group_step_refl)
next
  case (Cons sf sfs)
  show ?case
  proof (cases "process_file io a (out @ [h]) st sf")
    case (Continue st1)
    with Cons.prems have r: "process_files io a (out @ [h]) st1 sfs = Continue st'" by simp
    from process_file_deleted_mono [OF Continue] process_files_deleted_mono [OF r] Cons.prems(2)
    have d1: "files_deleted st1 = files_deleted st" and d2: "files_deleted st' = files_deleted st1"
      by simp_all
    from process_file_step [OF nd Continue d1]
    have s1: "group_step out h (st_fs st) (st_fs st1)"
      and e1: "exists (st_fs st1) (pjoin (out @ [h]) (sf_name sf))" by simp_all
    from Cons.IH [OF r d2]
    have s2: "group_step out h (st_fs st1) (st_fs st')"
      and e2: "\<forall>sf \<in> set sfs. exists (st_fs st') (pjoin (out @ [h]) (sf_name sf))" by simp_all
    from s1 s2 have "group_step out h (st_fs st) (st_fs st')" by (rule group_step_trans)
    moreover from e1 s2 have "exists (st_fs st') (pjoin (out @ [h]) (sf_name sf))"
      by (simp add: group_step_def)
    ultimately show ?thesis using e2 by simp
  qed (use Cons.prems in simp_all)
qed

lemma create_zip_step:
  assumes "create_zip fs folder (out @ [h @ ''.zip'']) = (fs', None)"
  shows "group_step out h fs fs'"
proof -
  let ?z = "out @ [h @ ''.zip'']"
  from create_zip_success [OF assms] obtain fs1 r members where
    o: "zip_open fs ?z = Inr fs1" and fs1: "fs1 = put fs ?z (File (Archive []) r)"
    and fs': "fs' = put fs1 ?z (File (Archive members) r)" by blast
  from o have nd: "\<not> is_dir fs ?z"
    by (auto simp: zip_open_def is_dir_def split: option.splits node.splits)
  have nd1: "\<not> is_dir fs1 ?z" by (simp add: fs1 is_dir_def lookup_put)
  from group_step_put_zip [OF nd] have "group_step out h fs fs1" by (simp add: fs1)
  moreover from group_step_put_zip [OF nd1] have "group_step out h fs1 fs'" by (simp add: fs')
  ultimately show ?thesis by (rule group_step_trans)
qed

lemma put_put: "put (put fs p a) p b = put fs p b"
  unfolding put_def by (induction fs) auto

lemma put_same: "lookup fs p = Some n \<Longrightarrow> p \<noteq> [] \<Longrightarrow> put fs p n = fs"
  unfolding put_def by (rule update_triv) (simp add: lookup_def)

lemma key_exists: "p \<in> set (map fst fs) \<Longrightarrow> exists fs p"
proof (cases "p = []")
  case True
  then show ?thesis by (simp add: exists_def lookup_def)
next
  case False
  assume "p \<in> set (map fst fs)"
  then have "map_of fs p \<noteq> None" by (simp add: map_of_eq_None_iff)
  with False show ?thesis by (simp add: exists_def lookup_def)
qed

lemma child_exists: "p \<in> set (children fs d) \<Longrightarrow> exists fs p"
  by (rule key_exists) (simp add: children_keys)

lemma file_readable_put:
  "p \<noteq> [] \<Longrightarrow> q \<noteq> p \<Longrightarrow> file_readable (put fs p n) q = file_readable fs q"
  by (simp add: file_readable_def lookup_put)

lemma add_items_readable:
  "add_items fs items acc = (members, None) \<Longrightarrow>
     \<forall>p \<in> set items. is_file fs p \<longrightarrow> file_readable fs p"
proof (induction items arbitrary: acc)
  case Nil
  then show ?case by simp
next
  case (Cons item items)
  show ?case
  proof (cases "is_file fs item")
    case False
    with Cons show ?thesis by simp
  next
    case True
    then obtain d r where l: "lookup fs item = Some (File d r)"
      by (auto simp: is_file_def split: option.splits node.splits)
    with Cons.prems True have r: "r"
      by (auto simp: zip_write_def split: if_splits)
    with l Cons.prems True have "add_items fs items (acc @ [(pname item, d)]) = (members, None)"
      by (simp add: zip_write_def)
    from Cons.IH [OF this] l r show ?thesis by (simp add: file_readable_def)
  qed
qed

lemma add_items_success:
  "\<forall>p \<in> set items. is_file fs p \<longrightarrow> file_readable fs p \<Longrightarrow>
     add_items fs items acc =
       (acc @ map (\<lambda>p. (pname p, file_data fs p)) (filter (is_file fs) items), None)"
proof (induction items arbitrary: acc)
  case Nil
  then show ?case by simp
next
  case (Cons item items)
  show ?case
  proof (cases "is_file fs item")
    case False
    with Cons show ?thesis by simp
  next
    case True
    then obtain d r where l: "lookup fs item = Some (File d r)"
      by (auto simp: is_file_def split: option.splits node.splits)
    with Cons.prems True have r: "r" by (simp add: file_readable_def)
    from Cons.prems have "\<forall>p \<in> set items. is_file fs p \<longrightarrow> file_readable fs p" by simp
    from Cons.IH [OF this, of "acc @ [(pname item, d)]"] l r True show ?thesis
      by (simp add: zip_write_def file_data_def)
  qed
qed

lemma create_zip_current:
  assumes c: "create_zip fs folder z = (fs', None)" and out: "parent z \<noteq> folder"
  shows "zip_current fs' folder z"
proof -
  from c obtain fs1 where o: "zip_open fs z = Inr fs1"
    by (auto simp: create_zip_def split: if_splits sum.splits)
  from zip_open_result [OF o] obtain r where z: "z \<noteq> []" and fs1: "fs1 = put fs z (File (Archive []) r)"
    by blast
  from c o obtain members where a: "add_folder_to_zip fs1 folder [] = (members, None)"
    and f: "fs' = zip_close fs1 z members"
    by (auto simp: create_zip_def split: if_splits prod.splits)
  from a have d: "is_dir fs1 folder" and ai: "add_items fs1 (children fs1 folder) [] = (members, None)"
    by (auto simp: add_folder_to_zip_def iterdir_def is_dir_def split: option.splits node.splits)
  from add_items_members [OF ai]
  have m: "members = map (\<lambda>p. (pname p, file_data fs1 p)) (filter (is_file fs1) (children fs1 folder))"
    by simp
  note rd = add_items_readable [OF ai]
  from fs1 z have l1: "lookup fs1 z = Some (File (Archive []) r)" by (simp add: lookup_put)
  with f have fs': "fs' = put fs1 z (File (Archive members) r)" by (simp add: zip_close_def)
  have ch: "children fs' folder = children fs1 folder"
    unfolding fs' by (rule children_put_existing [OF l1 z])
  have ne: "p \<noteq> z" if "p \<in> set (children fs1 folder)" for p
    using in_children [OF that] out by auto
  have lk: "lookup fs' p = lookup fs1 p" if "p \<in> set (children fs1 folder)" for p
    using ne [OF that] z by (simp add: fs' lookup_put)
  have isf: "is_file fs' p = is_file fs1 p" if "p \<in> set (children fs1 folder)" for p
    using lk [OF that] by (simp add: is_file_def)
  have fd: "file_data fs' p = file_data fs1 p" if "p \<in> set (children fs1 folder)" for p
    using lk [OF that] by (simp add: file_data_def)
  have fr: "file_readable fs' p = file_readable fs1 p" if "p \<in> set (children fs1 folder)" for p
    using lk [OF that] by (simp add: file_readable_def)
  from d l1 have "folder \<noteq> z" by (auto simp: is_dir_def)
  with d z have d': "is_dir fs' folder" by (simp add: fs' is_dir_def lookup_put)
  have "filter (is_file fs') (children fs1 folder) = filter (is_file fs1) (children fs1 folder)"
    by (rule filter_cong [OF refl]) (rule isf)
  moreover have "map (\<lambda>p. (pname p, file_data fs' p)) (filter (is_file fs1) (children fs1 folder))
      = map (\<lambda>p. (pname p, file_data fs1 p)) (filter (is_file fs1) (children fs1 folder))"
    by (rule map_cong [OF refl]) (simp add: fd)
  ultimately have m': "members = map (\<lambda>p. (pname p, file_data fs' p))
      (filter (is_file fs') (children fs' folder))"
    by (simp add: m ch)
  from z have "lookup fs' z = Some (File (Archive members) r)" by (simp add: fs' lookup_put)
  with m' have l': "\<exists>r. lookup fs' z = Some (File (Archive (map (\<lambda>p. (pname p, file_data fs' p))
      (filter (is_file fs') (children fs' folder)))) r)" by blast
  have "\<forall>p \<in> set (children fs' folder). is_file fs' p \<longrightarrow> file_readable fs' p"
    using rd by (simp add: ch isf fr)
  with d' l' show ?thesis by (simp add: zip_current_def)
qed

lemma zip_current_fixpoint:
  assumes zc: "zip_current fs folder z" and out: "parent z \<noteq> folder" and z: "z \<noteq> []"
  shows "create_zip fs folder z = (fs, None)"
proof -
  let ?m = "map (\<lambda>p. (pname p, file_data fs p)) (filter (is_file fs) (children fs folder))"
  from zc obtain r where d: "is_dir fs folder" and l: "lookup fs z = Some (File (Archive ?m) r)"
    and rd: "\<forall>p \<in> set (children fs folder). is_file fs p \<longrightarrow> file_readable fs p"
    by (auto simp: zip_current_def)
  let ?fs1 = "put fs z (File (Archive []) r)"
  from l have o: "zip_open fs z = Inr ?fs1" by (simp add: zip_open_def)
  from d l have fz: "folder \<noteq> z" by (auto simp: is_dir_def)
  with d z have d1: "lookup ?fs1 folder = Some Dir" by (simp add: is_dir_def lookup_put)
  have ch: "children ?fs1 folder = children fs folder"
    by (rule children_put_existing [OF l z])
  have ne: "p \<noteq> z" if "p \<in> set (children fs folder)" for p
    using in_children [OF that] out by auto
  have isf: "is_file ?fs1 p = is_file fs p" if "p \<in> set (children fs folder)" for p
    using ne [OF that] z by (simp add: is_file_put)
  have fd: "file_data ?fs1 p = file_data fs p" if "p \<in> set (children fs folder)" for p
    using ne [OF that] z by (simp add: file_data_put)
  have fr: "file_readable ?fs1 p = file_readable fs p" if "p \<in> set (children fs folder)" for p
    using ne [OF that] z by (simp add: file_readable_put)
  have "\<forall>p \<in> set (children fs folder). is_file ?fs1 p \<longrightarrow> file_readable ?fs1 p"
    using rd by (simp add: isf fr)
  from add_items_success [OF this, of "[]"]
  have ai: "add_items ?fs1 (children fs folder) [] =
      (map (\<lambda>p. (pname p, file_data ?fs1 p)) (filter (is_file ?fs1) (children fs folder)), None)"
    by simp
  have "filter (is_file ?fs1) (children fs folder) = filter (is_file fs) (children fs folder)"
    by (rule filter_cong [OF refl]) (rule isf)
  moreover have "map (\<lambda>p. (pname p, file_data ?fs1 p)) (filter (is_file fs) (children fs folder)) = ?m"
    by (rule map_cong [OF refl]) (simp add: fd)
  ultimately have ai': "add_items ?fs1 (children fs folder) [] = (?m, None)"
    using ai by simp
  from d1 ch ai' have af: "add_folder_to_zip ?fs1 folder [] = (?m, None)"
    by (simp add: add_folder_to_zip_def iterdir_def)
  from z have "lookup ?fs1 z = Some (File (Archive []) r)" by (simp add: lookup_put)
  then have "zip_close ?fs1 z ?m = put ?fs1 z (File (Archive ?m) r)" by (simp add: zip_close_def)
  also have "\<dots> = put fs z (File (Archive ?m) r)" by (rule put_put)
  also have "\<dots> = fs" by (rule put_same [OF l z])
  finally have zcl: "zip_close ?fs1 z ?m = fs" .
  from d have "exists fs folder" by (simp add: exists_def is_dir_def)
  with o af zcl show ?thesis by (simp add: create_zip_def)
qed

lemma zip_current_preserved:
  assumes s: "group_step out h fs fs'" and zc: "zip_current fs (out @ [g]) (out @ [g @ ''.zip''])"
    and gh: "g \<noteq> h"
  shows "zip_current fs' (out @ [g]) (out @ [g @ ''.zip''])"
proof -
  let ?d = "out @ [g]" and ?z = "out @ [g @ ''.zip'']"
  let ?m = "map (\<lambda>p. (pname p, file_data fs p)) (filter (is_file fs) (children fs ?d))"
  from zc obtain r where d: "is_dir fs ?d" and l: "lookup fs ?z = Some (File (Archive ?m) r)"
    and rd: "\<forall>p \<in> set (children fs ?d). is_file fs p \<longrightarrow> file_readable fs p"
    by (auto simp: zip_current_def)
  from s d have d': "is_dir fs' ?d" by (simp add: group_step_def)
  from gh have "?d \<noteq> out \<and> ?d \<noteq> out @ [h]" by simp
  with s have ch: "children fs' ?d = children fs ?d" by (simp add: group_step_def)
  from l have "exists fs ?z" by (simp add: exists_def)
  moreover from gh have "?z \<noteq> out @ [h @ ''.zip'']" by simp
  ultimately have lz: "lookup fs' ?z = lookup fs ?z" using s by (simp add: group_step_def)
  have lk: "lookup fs' p = lookup fs p" if "p \<in> set (children fs ?d)" for p
  proof -
    from in_children [OF that] have "parent p = ?d" by simp
    then have "p \<noteq> out @ [h @ ''.zip'']" by (auto simp: parent_def)
    with child_exists [OF that] s show ?thesis by (simp add: group_step_def)
  qed
  have isf: "is_file fs' p = is_file fs p" if "p \<in> set (children fs ?d)" for p
    using lk [OF that] by (simp add: is_file_def)
  have fd: "file_data fs' p = file_data fs p" if "p \<in> set (children fs ?d)" for p
    using lk [OF that] by (simp add: file_data_def)
  have fr: "file_readable fs' p = file_readable fs p" if "p \<in> set (children fs ?d)" for p
    using lk [OF that] by (simp add: file_readable_def)
  have "filter (is_file fs') (children fs ?d) = filter (is_file fs) (children fs ?d)"
    by (rule filter_cong [OF refl]) (rule isf)
  moreover have "map (\<lambda>p. (pname p, file_data fs' p)) (filter (is_file fs) (children fs ?d)) = ?m"
    by (rule map_cong [OF refl]) (simp add: fd)
  ultimately have "map (\<lambda>p. (pname p, file_data fs' p)) (filter (is_file fs') (children fs' ?d)) = ?m"
    by (simp add: ch)
  with lz l have "\<exists>r. lookup fs' ?z = Some (File (Archive (map (\<lambda>p. (pname p, file_data fs' p))
      (filter (is_file fs') (children fs' ?d)))) r)" by simp
  moreover have "\<forall>p \<in> set (children fs' ?d). is_file fs' p \<longrightarrow> file_readable fs' p"
    using rd by (simp add: ch isf fr)
  ultimately show ?thesis using d' by (simp add: zip_current_def)
qed

lemma archive_group_continue:
  assumes "\<not> a_dry_run a" and "\<not> a_zip_only a"
    and "archive_group a name folder st = Continue st'"
  shows "create_zip (st_fs st) folder (pjoin (a_output a) (name @ ''.zip'')) = (st_fs st', None)
         \<and> files_deleted st' = files_deleted st \<and> files_copied st' = files_copied st
         \<and> files_skipped st' = files_skipped st"
  using assms
  by (auto simp: archive_group_def Let_def log_def split: prod.splits option.splits)

lemma prepare_folder_made:
  assumes "\<not> a_dry_run a" and "prepare_folder a folder st = Inr st1"
  shows "mkdir_parents (st_fs st) folder = Inr (st_fs st1)
         \<and> files_deleted st1 = files_deleted st \<and> files_copied st1 = files_copied st
         \<and> files_skipped st1 = files_skipped st"
  using assms
  by (auto simp: prepare_folder_def create_folder_def log_def split: sum.splits)

lemma process_group_run:
  assumes nd: "\<not> a_dry_run a" and nz: "\<not> a_zip_only a"
    and pl: "plain_name (fg_name grp)"
    and os: "out_settled (st_fs st) (a_output a)"
    and p: "process_group io a st grp = Continue st'"
    and del: "files_deleted st' = files_deleted st"
  shows "group_step (a_output a) (fg_name grp) (st_fs st) (st_fs st')
         \<and> is_dir (st_fs st') (a_output a @ [fg_name grp])
         \<and> (\<forall>sf \<in> set (fg_files grp).
               exists (st_fs st') (pjoin (a_output a @ [fg_name grp]) (sf_name sf)))
         \<and> zip_current (st_fs st') (a_output a @ [fg_name grp]) (a_output a @ [fg_name grp @ ''.zip''])"
proof -
  let ?out = "a_output a" and ?h = "fg_name grp"
  let ?folder = "?out @ [?h]" and ?z = "?out @ [?h @ ''.zip'']"
  have pj: "pjoin ?out ?h = ?folder" by (rule pjoin_plain [OF pl])
  note u = process_group_unfold [of io a st grp, unfolded pj]
  from p u obtain st1 where pf: "prepare_folder a ?folder (group_start st grp) = Inr st1"
    by (cases "prepare_folder a ?folder (group_start st grp)") simp_all
  from p u pf obtain st2 where fl: "process_files io a ?folder st1 (fg_files grp) = Continue st2"
    by (cases "process_files io a ?folder st1 (fg_files grp)") simp_all
  from p u pf fl have ag: "archive_group a ?h ?folder st2 = Continue st'" by simp
  from prepare_folder_made [OF nd pf]
  have m: "mkdir_parents (st_fs st) ?folder = Inr (st_fs st1)"
    and d1: "files_deleted st1 = files_deleted st"
    by (simp_all add: group_start_fields)
  from archive_group_continue [OF nd nz ag]
  have cz: "create_zip (st_fs st2) ?folder ?z = (st_fs st', None)"
    and d3: "files_deleted st' = files_deleted st2"
    by (simp_all add: pjoin_zip)
  from d1 d3 del have d2: "files_deleted st2 = files_deleted st1" by simp
  from create_folder_step [OF os m] have s1: "group_step ?out ?h (st_fs st) (st_fs st1)" .
  from mkdir_parents_made [OF m] have dir1: "is_dir (st_fs st1) ?folder" .
  from process_files_step [OF nd fl d2]
  have s2: "group_step ?out ?h (st_fs st1) (st_fs st2)"
    and ex2: "\<forall>sf \<in> set (fg_files grp). exists (st_fs st2) (pjoin ?folder (sf_name sf))"
    by simp_all
  from create_zip_step [OF cz] have s3: "group_step ?out ?h (st_fs st2) (st_fs st')" .
  have "parent ?z \<noteq> ?folder" by (simp add: parent_def)
  from create_zip_current [OF cz this] have zc: "zip_current (st_fs st') ?folder ?z" .
  from s1 s2 s3 have s: "group_step ?out ?h (st_fs st) (st_fs st')"
    by (blast intro: group_step_trans)
  from zc have "is_dir (st_fs st') ?folder" by (simp add: zip_current_def)
  moreover from ex2 s3
  have "\<forall>sf \<in> set (fg_files grp). exists (st_fs st') (pjoin ?folder (sf_name sf))"
    by (simp add: group_step_def)
  ultimately show ?thesis using s zc by simp
qed

lemma process_group_deleted_mono:
  assumes "process_group io a st grp = Continue st'"
  shows "files_deleted st \<le> files_deleted st'"
proof -
  let ?folder = "pjoin (a_output a) (fg_name grp)"
  note u = process_group_unfold [of io a st grp]
  from assms u obtain st1 where pf: "prepare_folder a ?folder (group_start st grp) = Inr st1"
    by (cases "prepare_folder a ?folder (group_start st grp)") simp_all
  from assms u pf obtain st2 where fl: "process_files io a ?folder st1 (fg_files grp) = Continue st2"
    by (cases "process_files io a ?folder st1 (fg_files grp)") simp_all
  from assms u pf fl have ag: "archive_group a (fg_name grp) ?folder st2 = Continue st'" by simp
  from pf have "files_deleted st1 = files_deleted st"
    by (auto simp: prepare_folder_def log_def group_start_fields split: if_splits sum.splits)
  moreover from ag have "files_deleted st' = files_deleted st2"
    by (auto simp: archive_group_def Let_def log_def
        split: if_splits prod.splits option.splits sum.splits)
  moreover note process_files_deleted_mono [OF fl]
  ultimately show ?thesis by simp
qed

lemma process_groups_deleted_mono:
  "process_groups io a st grps = Continue st' \<Longrightarrow> files_deleted st \<le> files_deleted st'"
proof (induction grps arbitrary: st)
  case Nil
  then show ?case by simp
next
  case (Cons grp grps)
  show ?case
  proof (cases "process_group io a st grp")
    case (Continue st1)
    with Cons.prems have "process_groups io a st1 grps = Continue st'" by simp
    from Cons.IH [OF this] process_group_deleted_mono [OF Continue] show ?thesis by simp
  qed (use Cons.prems in simp_all)
qed

lemma mkdir_parents_cong:
  "(\<forall>q. length q \<le> length p \<longrightarrow> lookup fs' q = lookup fs q) \<Longrightarrow>
     isl (mkdir_parents fs' p) = isl (mkdir_parents fs p)"
proof (induction fs p rule: mkdir_parents.induct)
  case (1 fs p)
  note u = mkdir_parents_unfold [of fs p] and u' = mkdir_parents_unfold [of fs' p]
  from "1.prems" have lp: "lookup fs' p = lookup fs p" by simp
  from "1.prems" have lpp: "lookup fs' (parent p) = lookup fs (parent p)" by (simp add: parent_def)
  show ?case
  proof (cases "lookup fs p")
    case (Some n)
    with lp u u' show ?thesis by (cases n) simp_all
  next
    case None
    show ?thesis
    proof (cases "lookup fs (parent p)")
      case (Some n)
      with None lp lpp u u' show ?thesis by (cases n) simp_all
    next
      case None': None
      from "1.prems" have "\<forall>q. length q \<le> length (parent p) \<longrightarrow> lookup fs' q = lookup fs q"
        by (simp add: parent_def)
      from "1.IH" [OF None None' this]
      have "isl (mkdir_parents fs' (parent p)) = isl (mkdir_parents fs (parent p))" .
      with None None' lp lpp u u' show ?thesis
        by (cases "mkdir_parents fs' (parent p)"; cases "mkdir_parents fs (parent p)") simp_all
    qed
  qed
qed

lemma out_settled_step:
  assumes "group_step out h fs fs'" and "out_settled fs out"
  shows "out_settled fs' out"
proof -
  from assms(1) have e: "\<forall>q. length q \<le> length out \<longrightarrow> lookup fs' q = lookup fs q"
    and b: "is_dir fs out \<longrightarrow> is_dir fs' out"
    by (simp_all add: group_step_def)
  from mkdir_parents_cong [OF e] assms(2) b show ?thesis by (auto simp: out_settled_def)
qed

lemma run_step_refl: "run_step out {} fs fs"
  by (simp add: run_step_def)

lemma run_step_group:
  assumes "group_step out h fs fs'"
  shows "run_step out {h} fs fs'"
  unfolding run_step_def
proof (intro conjI allI impI)
  fix p assume "exists fs p \<and> (\<forall>h \<in> {h}. p \<noteq> out @ [h @ ''.zip''])"
  with assms show "lookup fs' p = lookup fs p" by (simp add: group_step_def)
next
  fix p assume "is_dir fs p"
  with assms show "is_dir fs' p" by (simp add: group_step_def)
next
  fix p assume "exists fs p"
  with assms show "exists fs' p" by (simp add: group_step_def)
next
  fix p :: path assume "length p \<le> length out"
  with assms show "lookup fs' p = lookup fs p" by (simp add: group_step_def)
next
  fix g assume "g \<notin> {h}" and "zip_current fs (out @ [g]) (out @ [g @ ''.zip''])"
  then show "zip_current fs' (out @ [g]) (out @ [g @ ''.zip''])"
    using zip_current_preserved [OF assms, of g] by simp
qed

lemma run_step_trans:
  assumes 1: "run_step out hs1 fs fs1" and 2: "run_step out hs2 fs1 fs2"
  shows "run_step out (hs1 \<union> hs2) fs fs2"
  unfolding run_step_def
proof (intro conjI allI impI)
  fix p assume a: "exists fs p \<and> (\<forall>h \<in> hs1 \<union> hs2. p \<noteq> out @ [h @ ''.zip''])"
  with 1 have l1: "lookup fs1 p = lookup fs p" by (simp add: run_step_def)
  from a 1 have "exists fs1 p" by (simp add: run_step_def)
  with a 2 have "lookup fs2 p = lookup fs1 p" by (simp add: run_step_def)
  with l1 show "lookup fs2 p = lookup fs p" by simp
next
  fix p assume "is_dir fs p"
  with 1 2 show "is_dir fs2 p" by (simp add: run_step_def)
next
  fix p assume "exists fs p"
  with 1 2 show "exists fs2 p" by (simp add: run_step_def)
next
  fix p :: path assume "length p \<le> length out"
  with 1 2 show "lookup fs2 p = lookup fs p" by (simp add: run_step_def)
next
  fix g assume g: "g \<notin> hs1 \<union> hs2" and z: "zip_current fs (out @ [g]) (out @ [g @ ''.zip''])"
  from g z 1 have "zip_current fs1 (out @ [g]) (out @ [g @ ''.zip''])" by (simp add: run_step_def)
  with g 2 show "zip_current fs2 (out @ [g]) (out @ [g @ ''.zip''])" by (simp add: run_step_def)
qed

lemma out_settled_run:
  assumes "run_step out hs fs fs'" and "out_settled fs out"
  shows "out_settled fs' out"
proof -
  from assms(1) have e: "\<forall>q. length q \<le> length out \<longrightarrow> lookup fs' q = lookup fs q"
    and b: "is_dir fs out \<longrightarrow> is_dir fs' out"
    by (simp_all add: run_step_def)
  from mkdir_parents_cong [OF e] assms(2) b show ?thesis by (auto simp: out_settled_def)
qed

lemma process_groups_run:
  assumes nd: "\<not> a_dry_run a" and nz: "\<not> a_zip_only a"
  shows "\<forall>g \<in> set gs. plain_name (fg_name g) \<Longrightarrow> out_settled (st_fs st) (a_output a) \<Longrightarrow>
         process_groups io a st gs = Continue st' \<Longrightarrow> files_deleted st' = files_deleted st \<Longrightarrow>
         run_step (a_output a) (fg_name ` set gs) (st_fs st) (st_fs st')
         \<and> (\<forall>g \<in> set gs. group_done a (st_fs st') g)"
proof (induction gs arbitrary: st)
  case Nil
  then show ?case by (simp add: run_step_refl)
next
  case (Cons grp gs)
  let ?out = "a_output a"
  from Cons.prems(3) obtain st1 where p1: "process_group io a st grp = Continue st1"
    by (cases "process_group io a st grp") simp_all
  with Cons.prems(3) have p2: "process_groups io a st1 gs = Continue st'" by simp
  from process_group_deleted_mono [OF p1] process_groups_deleted_mono [OF p2] Cons.prems(4)
  have d1: "files_deleted st1 = files_deleted st" and d2: "files_deleted st' = files_deleted st1"
    by simp_all
  from Cons.prems(1) have pl: "plain_name (fg_name grp)"
    and pls: "\<forall>g \<in> set gs. plain_name (fg_name g)" by simp_all
  from process_group_run [OF nd nz pl Cons.prems(2) p1 d1]
  have gs1: "group_step ?out (fg_name grp) (st_fs st) (st_fs st1)"
    and done1: "group_done a (st_fs st1) grp"
    by (simp_all add: group_done_def)
  from out_settled_step [OF gs1 Cons.prems(2)] have os1: "out_settled (st_fs st1) ?out" .
  from Cons.IH [OF pls os1 p2 d2]
  have rs: "run_step ?out (fg_name ` set gs) (st_fs st1) (st_fs st')"
    and dn: "\<forall>g \<in> set gs. group_done a (st_fs st') g" by simp_all
  from run_step_trans [OF run_step_group [OF gs1] rs]
  have r: "run_step ?out (fg_name ` set (grp # gs)) (st_fs st) (st_fs st')" by simp
  have "group_done a (st_fs st') grp"
  proof -
    from done1 rs have dir: "is_dir (st_fs st') (?out @ [fg_name grp])"
      by (simp add: group_done_def run_step_def)
    from done1 rs have ex: "\<forall>sf \<in> set (fg_files grp).
        exists (st_fs st') (pjoin (?out @ [fg_name grp]) (sf_name sf))"
      by (simp add: group_done_def run_step_def)
    have "zip_current (st_fs st') (?out @ [fg_name grp]) (?out @ [fg_name grp @ ''.zip''])"
    proof (cases "fg_name grp \<in> fg_name ` set gs")
      case True
      then obtain g where "g \<in> set gs" and "fg_name g = fg_name grp" by auto
      with dn show ?thesis by (auto simp: group_done_def)
    next
      case False
      with done1 rs show ?thesis by (simp add: group_done_def run_step_def)
    qed
    with dir ex show ?thesis by (simp add: group_done_def)
  qed
  with r dn show ?case by simp
qed

lemma rerun_files:
  "\<forall>sf \<in> set files. exists (st_fs st) (pjoin folder (sf_name sf)) \<Longrightarrow>
     \<exists>st'. process_files io a folder st files = Continue st' \<and> st_fs st' = st_fs st
       \<and> files_copied st' = files_copied st \<and> files_deleted st' = files_deleted st
       \<and> files_skipped st' = files_skipped st + length files"
proof (induction files arbitrary: st)
  case Nil
  show ?case by simp
next
  case (Cons sf rest)
  let ?st1 = "(log ''INFO'' (''Skipping duplicate: '' @ sf_name sf) st)
                \<lparr>files_skipped := files_skipped st + 1\<rparr>"
  from Cons.prems have pf: "process_file io a folder st sf = Continue ?st1"
    by (simp add: process_file_def handle_merge_def Let_def)
  have f: "st_fs ?st1 = st_fs st" "files_copied ?st1 = files_copied st"
    "files_deleted ?st1 = files_deleted st" "files_skipped ?st1 = files_skipped st + 1"
    by (simp_all add: log_def)
  from Cons.prems f(1) have "\<forall>sf \<in> set rest. exists (st_fs ?st1) (pjoin folder (sf_name sf))"
    by simp
  from Cons.IH [OF this] obtain st' where r: "process_files io a folder ?st1 rest = Continue st'"
    and g: "st_fs st' = st_fs ?st1" "files_copied st' = files_copied ?st1"
      "files_deleted st' = files_deleted ?st1"
      "files_skipped st' = files_skipped ?st1 + length rest"
    by blast
  from pf r have "process_files io a folder st (sf # rest) = Continue st'" by simp
  moreover from g f have "st_fs st' = st_fs st \<and> files_copied st' = files_copied st
       \<and> files_deleted st' = files_deleted st
       \<and> files_skipped st' = files_skipped st + length (sf # rest)" by simp
  ultimately show ?case by blast
qed

lemma rerun_group:
  assumes nd: "\<not> a_dry_run a" and nz: "\<not> a_zip_only a"
    and pl: "plain_name (fg_name grp)" and gd: "group_done a (st_fs st) grp"
  shows "\<exists>st'. process_group io a st grp = Continue st' \<and> st_fs st' = st_fs st
       \<and> files_copied st' = files_copied st \<and> files_deleted st' = files_deleted st
       \<and> files_skipped st' = files_skipped st + file_count grp"
proof -
  let ?folder = "a_output a @ [fg_name grp]"
  let ?zip = "a_output a @ [fg_name grp @ ''.zip'']"
  let ?s0 = "group_start st grp"
  note pj = pjoin_plain [OF pl, of "a_output a"] pjoin_zip [of "a_output a" "fg_name grp"]
  from gd have d: "is_dir (st_fs st) ?folder"
    and ex: "\<forall>sf \<in> set (fg_files grp). exists (st_fs st) (pjoin ?folder (sf_name sf))"
    and zc: "zip_current (st_fs st) ?folder ?zip"
    by (simp_all add: group_done_def)
  from d have mk: "mkdir_parents (st_fs st) ?folder = Inr (st_fs st)"
    unfolding mkdir_parents_unfold [of "st_fs st" ?folder] by (simp add: is_dir_def)
  let ?s1 = "log ''DEBUG'' (''Created folder: '' @ join_path ?folder) (?s0\<lparr>st_fs := st_fs st\<rparr>)"
  from nd mk have pf: "prepare_folder a ?folder ?s0 = Inr ?s1"
    by (simp add: prepare_folder_def create_folder_def group_start_fields)
  have f1: "st_fs ?s1 = st_fs st" "files_copied ?s1 = files_copied st"
    "files_deleted ?s1 = files_deleted st" "files_skipped ?s1 = files_skipped st"
    by (simp_all add: log_def group_start_fields)
  from ex f1(1) have "\<forall>sf \<in> set (fg_files grp). exists (st_fs ?s1) (pjoin ?folder (sf_name sf))"
    by simp
  from rerun_files [OF this, of io a] obtain st2
    where r: "process_files io a ?folder ?s1 (fg_files grp) = Continue st2"
      and f2: "st_fs st2 = st_fs ?s1" "files_copied st2 = files_copied ?s1"
        "files_deleted st2 = files_deleted ?s1"
        "files_skipped st2 = files_skipped ?s1 + length (fg_files grp)"
    by blast
  have "parent ?zip \<noteq> ?folder" "?zip \<noteq> []" by (simp_all add: parent_def)
  from zip_current_fixpoint [OF zc this]
  have cz: "create_zip (st_fs st) ?folder ?zip = (st_fs st, None)" .
  let ?s3 = "log ''INFO'' (''Created ZIP: '' @ pname ?zip) (st2\<lparr>st_fs := st_fs st\<rparr>)"
  from nd nz cz f2(1) f1(1)
  have ag: "archive_group a (fg_name grp) ?folder st2 = Continue ?s3"
    by (simp add: archive_group_def Let_def pj)
  from pf r ag have "process_group io a st grp = Continue ?s3"
    by (simp add: process_group_unfold pj)
  moreover from f1 f2 have "st_fs ?s3 = st_fs st \<and> files_copied ?s3 = files_copied st
       \<and> files_deleted ?s3 = files_deleted st
       \<and> files_skipped ?s3 = files_skipped st + file_count grp"
    by (simp add: log_def file_count_def)
  ultimately show ?thesis by blast
qed

lemma rerun_groups:
  assumes nd: "\<not> a_dry_run a" and nz: "\<not> a_zip_only a"
  shows "\<forall>g \<in> set gs. plain_name (fg_name g) \<and> group_done a (st_fs st) g \<Longrightarrow>
     \<exists>st'. process_groups io a st gs = Continue st' \<and> st_fs st' = st_fs st
       \<and> files_copied st' = files_copied st \<and> files_deleted st' = files_deleted st
       \<and> files_skipped st' = files_skipped st + sum_list (map file_count gs)"
proof (induction gs arbitrary: st)
  case Nil
  show ?case by simp
next
  case (Cons grp gs)
  from Cons.prems have pl: "plain_name (fg_name grp)" and gd: "group_done a (st_fs st) grp"
    by simp_all
  from rerun_group [OF nd nz pl gd] obtain st1
    where p: "process_group io a st grp = Continue st1"
      and f: "st_fs st1 = st_fs st" "files_copied st1 = files_copied st"
        "files_deleted st1 = files_deleted st"
        "files_skipped st1 = files_skipped st + file_count grp"
    by blast
  from Cons.prems f(1)
  have "\<forall>g \<in> set gs. plain_name (fg_name g) \<and> group_done a (st_fs st1) g" by simp
  from Cons.IH [OF this] obtain st' where r: "process_groups io a st1 gs = Continue st'"
    and g: "st_fs st' = st_fs st1" "files_copied st' = files_copied st1"
      "files_deleted st' = files_deleted st1"
      "files_skipped st' = files_skipped st1 + sum_list (map file_count gs)"
    by blast
  from p r have "process_groups io a st (grp # gs) = Continue st'" by simp
  moreover from f g have "st_fs st' = st_fs st \<and> files_copied st' = files_copied st
       \<and> files_deleted st' = files_deleted st
       \<and> files_skipped st' = files_skipped st + sum_list (map file_count (grp # gs))"
    by simp
  ultimately show ?case by blast
qed

lemma log_name_not_zip: "h @ ''.zip'' \<noteq> ''photozipper.log''"
proof
  assume "h @ ''.zip'' = ''photozipper.log''"
  then have "last (h @ ''.zip'') = last ''photozipper.log''" by (rule arg_cong)
  then show False by simp
qed

lemma setup_logging_result:
  "isl (mkdir_parents (fst (setup_logging fs out lvl)) out)
   \<or> (is_dir (fst (setup_logging fs out lvl)) out
      \<and> exists (fst (setup_logging fs out lvl)) (out @ [''photozipper.log'']))"
proof (cases "mkdir_parents fs out")
  case (Inl e)
  then show ?thesis by (simp add: setup_logging_def)
next
  case (Inr fs1)
  let ?lp = "out @ [''photozipper.log'']"
  have pj: "pjoin out ''photozipper.log'' = ?lp" by (simp add: pjoin_def)
  from mkdir_parents_made [OF Inr] have d: "is_dir fs1 out" .
  then have par: "lookup fs1 (parent ?lp) = Some Dir" by (simp add: parent_def is_dir_def)
  show ?thesis
  proof (cases "lookup fs1 ?lp")
    case None
    with par have oa: "open_append fs1 ?lp = Inr (put fs1 ?lp (File (Raw []) True))"
      by (simp add: open_append_def)
    from Inr oa have f: "fst (setup_logging fs out lvl) = put fs1 ?lp (File (Raw []) True)"
      by (simp add: setup_logging_def pj)
    from d have "is_dir (put fs1 ?lp (File (Raw []) True)) out"
      by (simp add: is_dir_def lookup_put)
    moreover have "exists (put fs1 ?lp (File (Raw []) True)) ?lp"
      by (simp add: exists_def lookup_put)
    ultimately show ?thesis using f by simp
  next
    case (Some n)
    then have e: "exists fs1 ?lp" by (simp add: exists_def)
    from Some Inr have "fst (setup_logging fs out lvl) = fs1"
      by (cases n) (simp_all add: setup_logging_def pj open_append_def)
    with d e show ?thesis by simp
  qed
qed

lemma setup_logging_settled: "out_settled (fst (setup_logging fs out lvl)) out"
  using setup_logging_result [of fs out lvl] by (auto simp: out_settled_def)

lemma setup_logging_stable:
  assumes rs: "run_step out hs (fst (setup_logging fs out lvl)) fs'"
  shows "fst (setup_logging fs' out lvl) = fs'"
proof -
  let ?F = "fst (setup_logging fs out lvl)"
  let ?lp = "out @ [''photozipper.log'']"
  have pj: "pjoin out ''photozipper.log'' = ?lp" by (simp add: pjoin_def)
  from rs have e: "\<forall>q. length q \<le> length out \<longrightarrow> lookup fs' q = lookup ?F q"
    by (simp add: run_step_def)
  from setup_logging_result [of fs out lvl] show ?thesis
  proof
    assume "isl (mkdir_parents ?F out)"
    with mkdir_parents_cong [OF e] have "isl (mkdir_parents fs' out)" by simp
    then show ?thesis by (cases "mkdir_parents fs' out") (simp_all add: setup_logging_def)
  next
    assume "is_dir ?F out \<and> exists ?F ?lp"
    then have d: "is_dir ?F out" and x: "exists ?F ?lp" by simp_all
    from d rs have "is_dir fs' out" by (simp add: run_step_def)
    then have mk: "mkdir_parents fs' out = Inr fs'"
      unfolding mkdir_parents_unfold [of fs' out] by (simp add: is_dir_def)
    have "\<forall>h \<in> hs. ?lp \<noteq> out @ [h @ ''.zip'']"
      using log_name_not_zip by (auto simp del: append.simps)
    with x rs have "lookup fs' ?lp = lookup ?F ?lp" by (simp add: run_step_def)
    with x obtain n where l: "lookup fs' ?lp = Some n" by (auto simp: exists_def)
    from mk l show ?thesis
      by (cases n) (simp_all add: setup_logging_def pj open_append_def)
  qed
qed

lemma organize_nothing:
  assumes "scan_and_group re_compile (st_fs st) (a_source a) (a_pattern a) = Inr []"
  shows "fst (organize re_compile io a st) = 0 \<and> st_fs (snd (organize re_compile io a st)) = st_fs st
     \<and> files_copied (snd (organize re_compile io a st)) = files_copied st
     \<and> files_skipped (snd (organize re_compile io a st)) = files_skipped st
     \<and> files_deleted (snd (organize re_compile io a st)) = files_deleted st"
  using assms by (simp add: organize_def Let_def log_def)

lemma organize_found:
  assumes "scan_and_group re_compile (st_fs st) (a_source a) (a_pattern a) = Inr groups"
    and "groups \<noteq> []"
  shows "\<exists>st0. st_fs st0 = st_fs st \<and> files_copied st0 = files_copied st
     \<and> files_skipped st0 = files_skipped st \<and> files_deleted st0 = files_deleted st
     \<and> organize re_compile io a st =
         (case process_groups io a st0 groups of
            Return code st' \<Rightarrow> (code, st')
          | Raise e st' \<Rightarrow> unexpected e st'
          | Continue st' \<Rightarrow>
              (0, (log ''INFO'' (summary a st' groups) st')
                    \<lparr>st_stdout := st_stdout st' @
                       [summary a st' groups, ''Groups: '' @ join_names (map fg_name groups)]\<rparr>))"
proof -
  let ?st5 = "log ''INFO'' ''Scanning source directory...''
               (log ''INFO'' (''Output: '' @ join_path (a_output a))
                 (log ''INFO'' (''Pattern: '' @ a_pattern a)
                   (log ''INFO'' (''Source: '' @ join_path (a_source a))
                     (log ''INFO'' (if a_dry_run a
                              then ''[DRY RUN] Starting organization (no changes will be made)''
                              else ''Starting organization'') st))))"
  let ?st0 = "log ''INFO'' (''Found '' @ str_nat (length groups) @ '' group(s)'') ?st5"
  have f: "st_fs ?st5 = st_fs st" by (simp add: log_def)
  have "st_fs ?st0 = st_fs st \<and> files_copied ?st0 = files_copied st
     \<and> files_skipped ?st0 = files_skipped st \<and> files_deleted ?st0 = files_deleted st"
    by (simp add: log_def)
  moreover from assms f have "organize re_compile io a st =
         (case process_groups io a ?st0 groups of
            Return code st' \<Rightarrow> (code, st')
          | Raise e st' \<Rightarrow> unexpected e st'
          | Continue st' \<Rightarrow>
              (0, (log ''INFO'' (summary a st' groups) st')
                    \<lparr>st_stdout := st_stdout st' @
                       [summary a st' groups, ''Groups: '' @ join_names (map fg_name groups)]\<rparr>))"
    unfolding organize_def Let_def by (simp cong: outcome.case_cong)
  ultimately show ?thesis by blast
qed

lemma scan_needs_directory:
  assumes "scan_and_group re_compile fs source_dir pattern = Inr groups"
  shows "is_dir fs source_dir"
  using assms
  by (auto simp: scan_and_group_def iterdir_def is_dir_def split: option.splits node.splits)

text \<open>
  Claim C4, as the code has it. A first run that is neither a preview nor a run with
  \<^verbatim>\<open>--zip-only\<close> ends with exit code 0 and has deleted no original; the second run, on the
  state that the first left, finds the groups that the first found, and every identifier
  names a folder of its own. Then the second run ends with exit code 0, copies and deletes
  nothing and skips every file of every group; the archive of each group is written again
  from the folder as it is and is the archive that was there. The file system after the
  second run is the one after the first, the log file left out, to which the second run
  appends its records. The copies of the second run may be interrupted in other ways than
  those of the first: none is made.
\<close>

theorem second_run_skips_everything:
  assumes nd: "\<not> a_dry_run a" and nz: "\<not> a_zip_only a"
    and run1: "main re_compile io (Arguments a) fs = (0, s1)"
    and del: "files_deleted s1 = 0"
    and sc1: "scan_and_group re_compile (fst (setup_logging fs (a_output a) (a_log_level a)))
                (a_source a) (a_pattern a) = Inr groups"
    and sc2: "scan_and_group re_compile (st_fs s1) (a_source a) (a_pattern a) = Inr groups"
    and pl: "\<forall>g \<in> set groups. plain_name (fg_name g)"
  shows "fst (main re_compile io2 (Arguments a) (st_fs s1)) = 0
     \<and> without (st_fs (snd (main re_compile io2 (Arguments a) (st_fs s1)))) (log_file a)
         = without (st_fs s1) (log_file a)
     \<and> files_copied (snd (main re_compile io2 (Arguments a) (st_fs s1))) = 0
     \<and> files_skipped (snd (main re_compile io2 (Arguments a) (st_fs s1))) = sum_list (map file_count groups)
     \<and> files_deleted (snd (main re_compile io2 (Arguments a) (st_fs s1))) = 0
     \<and> (\<forall>g \<in> set groups.
          create_zip (st_fs s1) (pjoin (a_output a) (fg_name g))
            (pjoin (a_output a) (fg_name g @ ''.zip'')) = (st_fs s1, None))"
proof -
  let ?out = "a_output a"
  let ?F1 = "fst (setup_logging fs ?out (a_log_level a))"
  let ?st = "(initial_state fs)
               \<lparr>st_fs := ?F1, st_records := snd (snd (setup_logging fs ?out (a_log_level a)))\<rparr>"
  let ?F = "st_fs s1"
  have nv: "\<not> validation_error re_compile a fs"
  proof
    assume "validation_error re_compile a fs"
    from main_validation_error [OF this, of io] run1 show False by auto
  qed
  from main_valid [OF nv, of io] run1 have o1: "organize re_compile io a ?st = (0, s1)" by simp
  have st: "st_fs ?st = ?F1" "files_deleted ?st = 0" by (simp_all add: initial_state_def)
  from sc1 st(1)
  have sc1': "scan_and_group re_compile (st_fs ?st) (a_source a) (a_pattern a) = Inr groups"
    by simp
  have inv: "run_step ?out (fg_name ` set groups) ?F1 ?F \<and> (\<forall>g \<in> set groups. group_done a ?F g)"
  proof (cases "groups = []")
    case True
    with sc1' have "scan_and_group re_compile (st_fs ?st) (a_source a) (a_pattern a) = Inr []"
      by simp
    from organize_nothing [OF this, of io] o1 st(1) have "?F = ?F1" by simp
    with True show ?thesis by (simp add: run_step_refl)
  next
    case False
    from organize_found [OF sc1' False, of io] obtain st0
      where f0: "st_fs st0 = st_fs ?st" "files_deleted st0 = files_deleted ?st"
        and o: "organize re_compile io a ?st =
         (case process_groups io a st0 groups of
            Return code st' \<Rightarrow> (code, st')
          | Raise e st' \<Rightarrow> unexpected e st'
          | Continue st' \<Rightarrow>
              (0, (log ''INFO'' (summary a st' groups) st')
                    \<lparr>st_stdout := st_stdout st' @
                       [summary a st' groups, ''Groups: '' @ join_names (map fg_name groups)]\<rparr>))"
      by blast
    from f0 st have g0: "st_fs st0 = ?F1" "files_deleted st0 = 0" by simp_all
    show ?thesis
    proof (cases "process_groups io a st0 groups")
      case (Continue st')
      with o o1 have e: "s1 = (log ''INFO'' (summary a st' groups) st')
                    \<lparr>st_stdout := st_stdout st' @
                       [summary a st' groups, ''Groups: '' @ join_names (map fg_name groups)]\<rparr>"
        by simp
      have s1: "st_fs s1 = st_fs st'" "files_deleted s1 = files_deleted st'"
        unfolding e by (simp_all add: log_def)
      from g0(1) setup_logging_settled [of fs ?out "a_log_level a"]
      have os: "out_settled (st_fs st0) ?out" by simp
      from s1 del g0(2) have d: "files_deleted st' = files_deleted st0" by simp
      from process_groups_run [OF nd nz pl os Continue d] s1(1) g0(1)
      show ?thesis by simp
    next
      case (Return code st')
      from process_groups_return [OF this] have "code = 1" by simp
      with Return o o1 show ?thesis by simp
    next
      case (Raise e st')
      with o o1 show ?thesis by (simp add: unexpected_def)
    qed
  qed
  then have rs: "run_step ?out (fg_name ` set groups) ?F1 ?F"
    and gd: "\<forall>g \<in> set groups. group_done a ?F g" by simp_all
  from setup_logging_stable [OF rs]
  have stab: "fst (setup_logging ?F ?out (a_log_level a)) = ?F" .
  from scan_needs_directory [OF sc2] have sd: "is_dir ?F (a_source a)" .
  then have "exists ?F (a_source a)" by (simp add: exists_def is_dir_def)
  with sd nv have nv2: "\<not> validation_error re_compile a ?F"
    by (simp add: validation_error_def)
  let ?st2 = "(initial_state ?F)
               \<lparr>st_fs := fst (setup_logging ?F ?out (a_log_level a)),
                st_records := snd (snd (setup_logging ?F ?out (a_log_level a)))\<rparr>"
  from main_valid [OF nv2, of io2] have m2: "main re_compile io2 (Arguments a) ?F = organize re_compile io2 a ?st2" .
  have st2: "st_fs ?st2 = ?F" "files_copied ?st2 = 0" "files_skipped ?st2 = 0"
    "files_deleted ?st2 = 0"
    by (simp_all add: initial_state_def stab)
  from sc2 st2(1)
  have sc2': "scan_and_group re_compile (st_fs ?st2) (a_source a) (a_pattern a) = Inr groups"
    by simp
  have res: "fst (organize re_compile io2 a ?st2) = 0
     \<and> st_fs (snd (organize re_compile io2 a ?st2)) = ?F
     \<and> files_copied (snd (organize re_compile io2 a ?st2)) = 0
     \<and> files_skipped (snd (organize re_compile io2 a ?st2)) = sum_list (map file_count groups)
     \<and> files_deleted (snd (organize re_compile io2 a ?st2)) = 0"
  proof (cases "groups = []")
    case True
    with sc2' have "scan_and_group re_compile (st_fs ?st2) (a_source a) (a_pattern a) = Inr []"
      by simp
    from organize_nothing [OF this, of io2] st2 True show ?thesis by simp
  next
    case False
    from organize_found [OF sc2' False, of io2] obtain st0
      where f0: "st_fs st0 = st_fs ?st2" "files_copied st0 = files_copied ?st2"
        "files_skipped st0 = files_skipped ?st2" "files_deleted st0 = files_deleted ?st2"
        and o: "organize re_compile io2 a ?st2 =
         (case process_groups io2 a st0 groups of
            Return code st' \<Rightarrow> (code, st')
          | Raise e st' \<Rightarrow> unexpected e st'
          | Continue st' \<Rightarrow>
              (0, (log ''INFO'' (summary a st' groups) st')
                    \<lparr>st_stdout := st_stdout st' @
                       [summary a st' groups, ''Groups: '' @ join_names (map fg_name groups)]\<rparr>))"
      by blast
    from f0 st2 have g0: "st_fs st0 = ?F" "files_copied st0 = 0" "files_skipped st0 = 0"
      "files_deleted st0 = 0" by simp_all
    from pl gd g0(1) have "\<forall>g \<in> set groups. plain_name (fg_name g) \<and> group_done a (st_fs st0) g"
      by simp
    from rerun_groups [OF nd nz this] obtain st'
      where c: "process_groups io2 a st0 groups = Continue st'"
        and f: "st_fs st' = st_fs st0" "files_copied st' = files_copied st0"
          "files_deleted st' = files_deleted st0"
          "files_skipped st' = files_skipped st0 + sum_list (map file_count groups)"
      by blast
    from o c have e: "organize re_compile io2 a ?st2 =
              (0, (log ''INFO'' (summary a st' groups) st')
                    \<lparr>st_stdout := st_stdout st' @
                       [summary a st' groups, ''Groups: '' @ join_names (map fg_name groups)]\<rparr>)"
      by simp
    from f g0 show ?thesis unfolding e by (simp add: log_def)
  qed
  have zips: "\<forall>g \<in> set groups.
          create_zip ?F (pjoin ?out (fg_name g)) (pjoin ?out (fg_name g @ ''.zip'')) = (?F, None)"
  proof
    fix g assume g: "g \<in> set groups"
    with gd have zc: "zip_current ?F (?out @ [fg_name g]) (?out @ [fg_name g @ ''.zip''])"
      by (simp add: group_done_def)
    have "parent (?out @ [fg_name g @ ''.zip'']) \<noteq> ?out @ [fg_name g]"
      "?out @ [fg_name g @ ''.zip''] \<noteq> []" by (simp_all add: parent_def)
    from zip_current_fixpoint [OF zc this] g pl
    show "create_zip ?F (pjoin ?out (fg_name g)) (pjoin ?out (fg_name g @ ''.zip'')) = (?F, None)"
      by (simp add: pjoin_plain pjoin_zip)
  qed
  from res zips show ?thesis unfolding m2 by simp
qed


theorem second_run_skips_everything_witness:
  "\<not> a_dry_run args_years \<and> \<not> a_zip_only args_years
   \<and> fst (main compile_example no_faults (Arguments args_years) fs_trip) = 0
   \<and> files_copied (snd (main compile_example no_faults (Arguments args_years) fs_trip)) = 3
   \<and> files_deleted (snd (main compile_example no_faults (Arguments args_years) fs_trip)) = 0
   \<and> scan_and_group compile_example fs_years_done [''src''] trip_pattern = Inr groups_years
   \<and> fst (main compile_example no_faults (Arguments args_years) fs_years_done) = 0
   \<and> without (st_fs (snd (main compile_example no_faults (Arguments args_years) fs_years_done)))
        [''out'', ''photozipper.log''] = without fs_years_done [''out'', ''photozipper.log'']
   \<and> files_copied (snd (main compile_example no_faults (Arguments args_years) fs_years_done)) = 0
   \<and> files_skipped (snd (main compile_example no_faults (Arguments args_years) fs_years_done)) = 3
   \<and> create_zip fs_years_done [''out'', ''trip2004''] [''out'', ''trip2004.zip'']
       = (fs_years_done, None)"
proof -
  let ?s1 = "snd (main compile_example no_faults (Arguments args_years) fs_trip)"
  have h: "\<not> a_dry_run args_years" "\<not> a_zip_only args_years"
    by (simp_all add: args_years_def)
  have c: "fst (main compile_example no_faults (Arguments args_years) fs_trip) = 0" by code_simp
  then have r: "main compile_example no_faults (Arguments args_years) fs_trip = (0, ?s1)"
    by (simp add: prod_eq_iff)
  have n: "files_copied ?s1 = 3" by code_simp
  have d: "files_deleted ?s1 = 0" by code_simp
  have s1: "scan_and_group compile_example
              (fst (setup_logging fs_trip (a_output args_years) (a_log_level args_years)))
              (a_source args_years) (a_pattern args_years) = Inr groups_years"
    by code_simp
  have s2: "scan_and_group compile_example (st_fs ?s1) (a_source args_years)
              (a_pattern args_years) = Inr groups_years"
    by code_simp
  have p: "\<forall>g \<in> set groups_years. plain_name (fg_name g)"
    by (simp add: groups_years_def plain_name_def)
  have g: "\<lparr>fg_name = ''trip2004'',
       fg_files =
         [\<lparr>sf_path = [''src'', ''trip2004_01.jpg''], sf_name = ''trip2004_01.jpg'', sf_size = 1,
           sf_group = ''trip2004''\<rparr>,
          \<lparr>sf_path = [''src'', ''trip2004_02.jpg''], sf_name = ''trip2004_02.jpg'', sf_size = 3,
           sf_group = ''trip2004''\<rparr>]\<rparr> \<in> set groups_years"
    by (simp add: groups_years_def)
  have o: "a_output args_years = [''out'']" "a_source args_years = [''src'']"
    "a_pattern args_years = trip_pattern" "log_file args_years = [''out'', ''photozipper.log'']"
    by (simp_all add: args_years_def log_file_def pjoin_def)
  have t: "sum_list (map file_count groups_years) = 3"
    by (simp add: groups_years_def file_count_def)
  from second_run_skips_everything [OF h r d s1 s2 p, of no_faults] g
  have "fst (main compile_example no_faults (Arguments args_years) (st_fs ?s1)) = 0
     \<and> without (st_fs (snd (main compile_example no_faults (Arguments args_years) (st_fs ?s1))))
          (log_file args_years) = without (st_fs ?s1) (log_file args_years)
     \<and> files_copied (snd (main compile_example no_faults (Arguments args_years) (st_fs ?s1))) = 0
     \<and> files_skipped (snd (main compile_example no_faults (Arguments args_years) (st_fs ?s1))) = 3
     \<and> create_zip (st_fs ?s1) (pjoin (a_output args_years) ''trip2004'')
            (pjoin (a_output args_years) (''trip2004'' @ ''.zip'')) = (st_fs ?s1, None)"
    unfolding t by fastforce
  with h c n d s2 o show ?thesis
    by (simp add: fs_years_done_def pjoin_def)
qed

text \<open>
  The claim as stated fails in three ways. With \<^verbatim>\<open>--zip-only\<close> the first run removes the
  group folders, so the second run copies every file again and skips none. A second preview
  run skips nothing either, since the first created no target. And when a file name gives the
  group identifier \<^verbatim>\<open>.\<close>, the group folder is the output directory itself: the archive of
  that group, written first, holds the files of the output directory, and in the second run
  these include the archive of the other group, so the archive differs.
\<close>

theorem second_run_copies_again_counterexample:
  "a_zip_only args_years_zip
   \<and> fst (main compile_example no_faults (Arguments args_years_zip) fs_trip) = 0
   \<and> files_copied (snd (main compile_example no_faults (Arguments args_years_zip) fs_trip)) = 3
   \<and> filter (\<lambda>e. take 1 (fst e) = [''src'']) fs_years_zip_done = fs_trip
   \<and> fst (main compile_example no_faults (Arguments args_years_zip) fs_years_zip_done) = 0
   \<and> files_skipped (snd (main compile_example no_faults (Arguments args_years_zip) fs_years_zip_done)) = 0
   \<and> files_copied (snd (main compile_example no_faults (Arguments args_years_zip) fs_years_zip_done)) = 3
   \<and> a_dry_run args_dry
   \<and> fst (main compile_example no_faults (Arguments args_dry) fs_dry) = 0
   \<and> filter (\<lambda>e. take 1 (fst e) = [''src'']) fs_dry_done = fs_dry
   \<and> fst (main compile_example no_faults (Arguments args_dry) fs_dry_done) = 0
   \<and> files_skipped (snd (main compile_example no_faults (Arguments args_dry) fs_dry_done)) = 0
   \<and> scan_and_group compile_dot fs_dot [''src''] ''[.t]'' =
       Inr [\<lparr>fg_name = ''.'', fg_files = [\<lparr>sf_path = [''src'', ''a.jpg''], sf_name = ''a.jpg'',
                                            sf_size = 1, sf_group = ''.''\<rparr>]\<rparr>,
            \<lparr>fg_name = ''t'', fg_files = [\<lparr>sf_path = [''src'', ''trip.jpg''], sf_name = ''trip.jpg'',
                                            sf_size = 1, sf_group = ''t''\<rparr>]\<rparr>]
   \<and> fst (main compile_dot no_faults (Arguments args_dot) fs_dot) = 0
   \<and> filter (\<lambda>e. take 1 (fst e) = [''src'']) fs_dot_done = fs_dot
   \<and> fst (main compile_dot no_faults (Arguments args_dot) fs_dot_done) = 0
   \<and> files_skipped (snd (main compile_dot no_faults (Arguments args_dot) fs_dot_done)) = 2
   \<and> map fst (case file_data fs_dot_done [''out'', ''..zip''] of Archive ms \<Rightarrow> ms | Raw t \<Rightarrow> [])
       = [''photozipper.log'', ''a.jpg'', ''..zip'']
   \<and> map fst (case file_data (st_fs (snd (main compile_dot no_faults (Arguments args_dot) fs_dot_done)))
                      [''out'', ''..zip''] of Archive ms \<Rightarrow> ms | Raw t \<Rightarrow> [])
       = [''photozipper.log'', ''a.jpg'', ''..zip'', ''t.zip'']
   \<and> without (st_fs (snd (main compile_dot no_faults (Arguments args_dot) fs_dot_done)))
         [''out'', ''photozipper.log''] \<noteq> without fs_dot_done [''out'', ''photozipper.log'']"
  by code_simp


end
